theory Spec2Isabelle
  imports Main "HOL-Library.Word" "HOL-Library.Signed_Division"
begin

section \<open>Identifiers, protocol time and errors\<close>

text \<open>
  The activation package works on 32-byte identifiers (\<open>types.ATXID\<close>, \<open>types.NodeID\<close>)
  and on unsigned 32-bit epoch and layer counters (\<open>types.EpochID\<close>, \<open>types.LayerID\<close>).
  Arithmetic on epochs therefore wraps around at \<open>2 ^ 32\<close>, as Go's \<open>uint32\<close> does.
  Wall-clock instants and durations are counted in nanoseconds.
\<close>

type_synonym ATXID = "256 word"
type_synonym NodeID = "256 word"
type_synonym EpochID = "32 word"
type_synonym LayerID = "32 word"
type_synonym VRFPostIndex = "64 word"
type_synonym Time = int
type_synonym Duration = int

definition EmptyATXID :: ATXID where
  "EmptyATXID = 0"

text \<open>
  Go errors: the sentinels the builder tests with \<open>errors.Is\<close>, plain \<open>errors.New\<close>
  values, \<open>fmt.Errorf\<close> with one \<open>%w\<close> verb (\<open>Wrapf\<close>: the literal text of the format
  before the wrapped error, then the wrapped error; formatted arguments such as the short
  id of the identity are left out) and \<open>errors.Join\<close>. \<open>LogFatal\<close> stands for the exit
  of the process in \<open>logger.Fatal\<close>. \<open>errors_Is\<close> follows \<open>errors.Is\<close>: the error
  itself, then what it wraps, and for a joined error each of its parts. The builder tests
  errors against sentinels only, for which Go's identity of errors and equality here agree.
\<close>

datatype error =
    ErrNotFound
  | ContextCanceled
  | ContextDeadlineExceeded
  | ErrATXChallengeExpired
  | ErrPoetServiceUnstable
  | ErrorsNew string
  | Wrapf string error
  | Joined "error list"
  | LogFatal string

fun errors_Is :: "error \<Rightarrow> error \<Rightarrow> bool" where
  "errors_Is (Wrapf m e) t = (Wrapf m e = t \<or> errors_Is e t)"
| "errors_Is (Joined es) t = (Joined es = t \<or> (\<exists>e \<in> set es. errors_Is e t))"
| "errors_Is e t = (e = t)"

text \<open>\<open>errors.Join\<close> drops nil arguments and is nil when all of them are nil.\<close>

definition errors_Join :: "error option \<Rightarrow> error option \<Rightarrow> error option" where
  "errors_Join a b =
     (case (a, b) of
        (None, None) \<Rightarrow> None
      | (Some x, None) \<Rightarrow> Some (Joined [x])
      | (None, Some y) \<Rightarrow> Some (Joined [y])
      | (Some x, Some y) \<Rightarrow> Some (Joined [x, y]))"

section \<open>Persisted records of the local database\<close>

record Post =
  Nonce :: "32 word"
  Indices :: "8 word list"
  Pow :: "64 word"

record NIPostChallenge =
  PublishEpoch :: EpochID
  Sequence :: "64 word"
  PrevATXID :: ATXID
  PositioningATX :: ATXID
  CommitmentATX :: "ATXID option"
  InitialPost :: "Post option"

text \<open>The initial proof as \<open>nipost.Post\<close> stores it (see \<open>buildInitialPost\<close>).\<close>

record nipost_Post =
  post_Nonce :: "32 word"
  post_Indices :: "8 word list"
  post_Pow :: "64 word"
  post_NumUnits :: "32 word"
  post_CommitmentATX :: ATXID
  post_VRFNonce :: VRFPostIndex

record localDB =
  challenge_tbl :: "NodeID \<rightharpoonup> NIPostChallenge"
  initial_post_tbl :: "NodeID \<rightharpoonup> nipost_Post"

text \<open>
  The functions of package \<open>sql/localsql/nipost\<close> are not among the sources; only their
  test file is. Each is modelled as a step on the database that returns its error (if
  any) together with the database it leaves.
\<close>

text \<open>
  Modelled from the spec: \<open>nipost.Challenge\<close> is missing. The spec keeps one Challenge
  per identity; \<open>Test_AddChallenge\<close> reads back what was added and gets
  \<open>sql.ErrNotFound\<close> after the removal.
\<close>

definition Challenge :: "localDB \<Rightarrow> NodeID \<Rightarrow> error + NIPostChallenge" where
  "Challenge db nodeID =
     (case challenge_tbl db nodeID of
        None \<Rightarrow> Inl (Wrapf ''get challenge'' ErrNotFound)
      | Some ch \<Rightarrow> Inr ch)"

text \<open>
  Modelled from the spec: \<open>nipost.AddChallenge\<close> is missing. The spec has the attempt to
  add a second Challenge for an identity that already has one fail without side effects.
\<close>

definition AddChallenge :: "localDB \<Rightarrow> NodeID \<Rightarrow> NIPostChallenge \<Rightarrow> error option \<times> localDB" where
  "AddChallenge db nodeID ch =
     (case challenge_tbl db nodeID of
        Some _ \<Rightarrow> (Some (Wrapf ''insert nipost challenge'' (ErrorsNew ''constraint failed'')), db)
      | None \<Rightarrow> (None, db\<lparr>challenge_tbl := (challenge_tbl db)(nodeID \<mapsto> ch)\<rparr>))"

text \<open>
  Modelled from the spec: \<open>nipost.RemoveChallenge\<close> is missing. The spec has it delete
  the persisted Challenge of the identity.
\<close>

definition RemoveChallenge :: "localDB \<Rightarrow> NodeID \<Rightarrow> error option \<times> localDB" where
  "RemoveChallenge db nodeID = (None, db\<lparr>challenge_tbl := (challenge_tbl db)(nodeID := None)\<rparr>)"

text \<open>
  Modelled from the spec: \<open>nipost.InitialPost\<close> is missing. The spec keeps one
  InitialProof per identity, persisted independently of the Challenge.
\<close>

definition InitialPost_get :: "localDB \<Rightarrow> NodeID \<Rightarrow> error + nipost_Post" where
  "InitialPost_get db nodeID =
     (case initial_post_tbl db nodeID of
        None \<Rightarrow> Inl (Wrapf ''get initial post'' ErrNotFound)
      | Some p \<Rightarrow> Inr p)"

text \<open>
  Modelled from the spec: \<open>nipost.RemoveInitialPost\<close> is missing. The spec has the
  InitialProof record discarded when its validation fails.
\<close>

definition RemoveInitialPost :: "localDB \<Rightarrow> NodeID \<Rightarrow> error option \<times> localDB" where
  "RemoveInitialPost db nodeID =
     (None, db\<lparr>initial_post_tbl := (initial_post_tbl db)(nodeID := None)\<rparr>)"

section \<open>The builder, its collaborators and their observable calls\<close>

datatype PostState = PostStateIdle | PostStateProving

text \<open>
  \<open>types.ActivationTxHeader\<close>, \<open>nipost.NIPostState\<close> and \<open>types.ActivationTx\<close> with
  the fields the builder reads and writes. A NIPost and a signature are opaque byte
  strings here. \<open>atx_NodeID\<close> and \<open>atx_VRFNonce\<close> are the optional (pointer) fields
  of \<open>InnerActivationTx\<close>.
\<close>

record ActivationTxHeader =
  hdr_ID :: ATXID
  hdr_PublishEpoch :: EpochID
  hdr_Sequence :: "64 word"

record NIPostState =
  st_NIPost :: "8 word list"
  st_NumUnits :: "32 word"
  st_VRFNonce :: VRFPostIndex

record ActivationTx =
  atx_NIPostChallenge :: NIPostChallenge
  atx_Coinbase :: "8 word list"
  atx_NumUnits :: "32 word"
  atx_NIPost :: "8 word list"
  atx_NodeID :: "NodeID option"
  atx_VRFNonce :: "VRFPostIndex option"
  atx_SmesherID :: NodeID
  atx_Signature :: "8 word list"
  atx_id :: ATXID

record PoetConfig =
  PhaseShift :: Duration
  CycleGap :: Duration
  GracePeriod :: Duration
  RequestTimeout :: Duration
  RequestRetryDelay :: Duration
  MaxRequestRetries :: int

record Config =
  GoldenATXID :: ATXID
  LabelsPerUnit :: "64 word"
  RegossipInterval :: Duration

text \<open>
  The calls on collaborators that the properties below speak about are recorded, in
  order, in the builder's \<open>trace\<close>: the prover's \<open>ResetState\<close>, the removal of the
  persisted Challenge, a chain verification, a publication on the ATX channel, the
  announcement of the wait for the poet round, and the cancellation of and the wait for
  the control loops. An event records that the call was made, whether it succeeded or not.
\<close>

datatype event =
    EvResetState NodeID
  | EvRemoveChallenge NodeID
  | EvVerifyChain ATXID
  | EvPublish "8 word list"
  | EvPoetWaitRound EpochID EpochID Time
  | EvStop
  | EvWait

text \<open>Which case of a two-way \<open>select\<close> on \<open>ctx.Done()\<close> and another channel ran.\<close>

datatype select_result = CtxDone | Fired

datatype db_op = OpChallenge | OpAddChallenge | OpRemoveChallenge | OpInitialPost | OpRemoveInitialPost

text \<open>
  The Builder's fields: \<open>Smeshing\<close> is \<open>b.stop != nil\<close>; \<open>signers\<close> lists the keys of
  the signers map in the order a \<open>range\<close> over it visits them.
\<close>

record Builder =
  coinbaseAccount :: "8 word list"
  conf :: Config
  poetCfg :: PoetConfig
  localDB :: localDB
  postStates :: "NodeID \<rightharpoonup> PostState"
  signers :: "NodeID list"
  Smeshing :: bool
  trace :: "event list"

text \<open>
  Everything outside the builder is an input: what each collaborator answers and which
  case of each \<open>select\<close> runs. The prover's answer to \<open>ResetState\<close> depends on the
  identity; \<open>db_fault\<close> is the failure, if any, of the storage engine under an operation
  of the local database for an identity; the answers of the publisher and the polls of
  \<open>ctx.Done()\<close> inside loops depend on the iteration. The line numbers are those of the
  builder's source file.
  \<^item> \<open>ctx_Err\<close>: \<open>ctx.Err()\<close> of the caller's context once it is done;
    \<open>pub_ctx_Err\<close>: the same for the context with the deadline of line 575.
  \<^item> \<open>sync_wait\<close>, \<open>round_wait\<close>, \<open>publish_epoch_wait\<close>, \<open>layer_wait\<close>,
    \<open>retry_wait\<close>: the selects of lines 421, 480, 633, 394/410 and 401.
  \<^item> \<open>current_epoch\<close>: \<open>CurrentLayer().GetEpoch()\<close> at line 426;
    \<open>epoch_at_publication\<close>: the same at line 640.
  \<^item> \<open>now_round_check\<close>, \<open>now_wait_check\<close>: \<open>time.Now()\<close> inside \<open>time.Until\<close> at
    lines 465 and 473.
  \<^item> \<open>GetLastAtx_target\<close>, \<open>GetLastAtx_build\<close>: \<open>cdb.GetLastAtx\<close> at lines 455 and 492.
  \<^item> \<open>atx_store\<close>: the known ATX ids with their heights.
\<close>

record Env =
  ctx_Err :: error
  pub_ctx_Err :: error
  sync_wait :: select_result
  round_wait :: select_result
  publish_epoch_wait :: select_result
  layer_wait :: select_result
  retry_wait :: select_result
  positioning_ctx_done :: "nat \<Rightarrow> bool"
  broadcast_ctx_done :: "nat \<Rightarrow> bool"
  current_epoch :: EpochID
  epoch_at_publication :: EpochID
  LayerToTime :: "LayerID \<Rightarrow> Time"
  FirstLayer :: "EpochID \<Rightarrow> LayerID"
  now_round_check :: Time
  now_wait_check :: Time
  rand_Int63n :: "int \<Rightarrow> int"
  GetLastAtx_target :: "NodeID \<Rightarrow> error + ActivationTxHeader"
  GetLastAtx_build :: "NodeID \<Rightarrow> error + ActivationTxHeader"
  atx_store :: "(ATXID \<times> 64 word) list"
  atxs_VRFNonce :: "NodeID \<Rightarrow> EpochID \<Rightarrow> error + VRFPostIndex"
  db_fault :: "db_op \<Rightarrow> NodeID \<Rightarrow> error option"
  ResetState_result :: "NodeID \<Rightarrow> error option"
  BuildNIPost_result :: "NodeID \<Rightarrow> NIPostChallenge \<Rightarrow> error + NIPostState"
  validator_Post :: "NodeID \<Rightarrow> ATXID \<Rightarrow> Post \<Rightarrow> 64 word \<Rightarrow> 32 word \<Rightarrow> error option"
  validator_VerifyChain :: "ATXID \<Rightarrow> ATXID \<Rightarrow> error option"
  signer_Sign :: "NodeID \<Rightarrow> ActivationTx \<Rightarrow> 8 word list"
  atx_Initialize :: "ActivationTx \<Rightarrow> error + ATXID"
  codec_Encode :: "ActivationTx \<Rightarrow> error + 8 word list"
  publisher_Publish :: "nat \<Rightarrow> 8 word list \<Rightarrow> error option"
  eg_Wait :: "error option"

subsection \<open>Calls on the prover and on the local database\<close>

definition nipostBuilder_ResetState :: "Env \<Rightarrow> Builder \<Rightarrow> NodeID \<Rightarrow> error option \<times> Builder" where
  "nipostBuilder_ResetState env b nodeID =
     (ResetState_result env nodeID, b\<lparr>trace := trace b @ [EvResetState nodeID]\<rparr>)"

definition db_Challenge :: "Env \<Rightarrow> Builder \<Rightarrow> NodeID \<Rightarrow> error + NIPostChallenge" where
  "db_Challenge env b nodeID =
     (case db_fault env OpChallenge nodeID of
        Some e \<Rightarrow> Inl e
      | None \<Rightarrow> Challenge (localDB b) nodeID)"

definition db_AddChallenge :: "Env \<Rightarrow> Builder \<Rightarrow> NodeID \<Rightarrow> NIPostChallenge \<Rightarrow> error option \<times> Builder" where
  "db_AddChallenge env b nodeID ch =
     (case db_fault env OpAddChallenge nodeID of
        Some e \<Rightarrow> (Some e, b)
      | None \<Rightarrow>
          (case AddChallenge (localDB b) nodeID ch of
             (r, db') \<Rightarrow> (r, b\<lparr>localDB := db'\<rparr>)))"

definition db_RemoveChallenge :: "Env \<Rightarrow> Builder \<Rightarrow> NodeID \<Rightarrow> error option \<times> Builder" where
  "db_RemoveChallenge env b nodeID =
     (case db_fault env OpRemoveChallenge nodeID of
        Some e \<Rightarrow> (Some e, b\<lparr>trace := trace b @ [EvRemoveChallenge nodeID]\<rparr>)
      | None \<Rightarrow>
          (case RemoveChallenge (localDB b) nodeID of
             (r, db') \<Rightarrow> (r, b\<lparr>localDB := db', trace := trace b @ [EvRemoveChallenge nodeID]\<rparr>)))"

definition db_InitialPost :: "Env \<Rightarrow> Builder \<Rightarrow> NodeID \<Rightarrow> error + nipost_Post" where
  "db_InitialPost env b nodeID =
     (case db_fault env OpInitialPost nodeID of
        Some e \<Rightarrow> Inl e
      | None \<Rightarrow> InitialPost_get (localDB b) nodeID)"

definition db_RemoveInitialPost :: "Env \<Rightarrow> Builder \<Rightarrow> NodeID \<Rightarrow> error option \<times> Builder" where
  "db_RemoveInitialPost env b nodeID =
     (case db_fault env OpRemoveInitialPost nodeID of
        Some e \<Rightarrow> (Some e, b)
      | None \<Rightarrow>
          (case RemoveInitialPost (localDB b) nodeID of
             (r, db') \<Rightarrow> (r, b\<lparr>localDB := db'\<rparr>)))"

section \<open>Selecting the positioning ATX\<close>

text \<open>
  Modelled from the spec: \<open>atxs.GetIDWithMaxHeight\<close> is not among the sources. The spec
  has it select the known ATX of the greatest height among those the filter lets through,
  and report not-found when the filter leaves none. Among candidates of equal height the
  earliest of the store is taken; the spec does not say which one is.
\<close>

fun max_height :: "(ATXID \<times> 64 word) list \<Rightarrow> (ATXID \<times> 64 word) option" where
  "max_height [] = None"
| "max_height (c # cs) =
     (case max_height cs of
        None \<Rightarrow> Some c
      | Some m \<Rightarrow> if snd m \<le> snd c then Some c else Some m)"

definition GetIDWithMaxHeight ::
  "(ATXID \<times> 64 word) list \<Rightarrow> NodeID \<Rightarrow> (ATXID \<Rightarrow> bool) \<Rightarrow> error + ATXID" where
  "GetIDWithMaxHeight db pref filter_fn =
     (case max_height (filter (\<lambda>c. filter_fn (fst c)) db) of
        None \<Rightarrow> Inl ErrNotFound
      | Some m \<Rightarrow> Inr (fst m))"

lemma max_height_None: "max_height cs = None \<longleftrightarrow> cs = []"
  by (cases cs) (auto split: option.splits)

lemma max_height_mem: "max_height cs = Some m \<Longrightarrow> m \<in> set cs"
  by (induction cs arbitrary: m) (auto split: option.splits if_splits)

lemma max_height_greatest: "max_height cs = Some m \<Longrightarrow> c \<in> set cs \<Longrightarrow> snd c \<le> snd m"
  by (induction cs arbitrary: m) (auto simp: max_height_None split: option.splits if_splits)

lemma GetIDWithMaxHeight_Inr:
  "GetIDWithMaxHeight db pref f = Inr x \<Longrightarrow>
     f x \<and> (\<exists>h. (x, h) \<in> set db \<and> (\<forall>c \<in> set db. f (fst c) \<longrightarrow> snd c \<le> h))"
proof -
  assume a: "GetIDWithMaxHeight db pref f = Inr x"
  then obtain m where m: "max_height (filter (\<lambda>c. f (fst c)) db) = Some m" and x: "x = fst m"
    by (auto simp: GetIDWithMaxHeight_def split: option.splits)
  from max_height_mem[OF m] have mem: "m \<in> set db" "f (fst m)" by auto
  have "\<forall>c \<in> set db. f (fst c) \<longrightarrow> snd c \<le> snd m"
    using max_height_greatest[OF m] by auto
  with mem x show ?thesis
    by (intro conjI exI[of _ "snd m"]) simp_all
qed

lemma GetIDWithMaxHeight_Inl:
  "GetIDWithMaxHeight db pref f = Inl e \<Longrightarrow> e = ErrNotFound \<and> (\<forall>c \<in> set db. \<not> f (fst c))"
  by (auto simp: GetIDWithMaxHeight_def max_height_None filter_empty_conv split: option.splits)

lemma filter_insert_less:
  assumes "(x, h) \<in> set db" "x \<notin> R"
  shows "length (filter (\<lambda>c. fst c \<notin> insert x R) db) < length (filter (\<lambda>c. fst c \<notin> R) db)"
proof -
  have "filter (\<lambda>c. fst c \<notin> insert x R) db = filter (\<lambda>c. fst c \<noteq> x) (filter (\<lambda>c. fst c \<notin> R) db)"
    by (induction db) auto
  moreover have "(x, h) \<in> set (filter (\<lambda>c. fst c \<notin> R) db)" using assms by auto
  ultimately show ?thesis
    by (metis (mono_tags, lifting) fst_conv length_filter_less)
qed

text \<open>
  \<open>findFullyValidHighTickAtx\<close>: \<open>i\<close> counts the iterations of the loop and \<open>rejectedAtxs\<close>
  is the loop's rejection set, empty at the call; the set and the trace are returned with
  the result so that properties can speak about them. The recursion ends because every
  rejected candidate is a known ATX that was not rejected before.
\<close>

function findFullyValidHighTickAtx ::
  "Env \<Rightarrow> NodeID \<Rightarrow> ATXID \<Rightarrow> ATXID set \<Rightarrow> nat \<Rightarrow> event list
     \<Rightarrow> (error + ATXID) \<times> ATXID set \<times> event list" where
  "findFullyValidHighTickAtx env prefNodeID goldenATXID rejectedAtxs i tr =
     (if positioning_ctx_done env i then (Inl (ctx_Err env), rejectedAtxs, tr)
      else
        (case GetIDWithMaxHeight (atx_store env) prefNodeID (\<lambda>a. a \<notin> rejectedAtxs) of
           Inl err \<Rightarrow> (Inl err, rejectedAtxs, tr)
         | Inr cand \<Rightarrow>
             (case validator_VerifyChain env cand goldenATXID of
                Some err \<Rightarrow>
                  findFullyValidHighTickAtx env prefNodeID goldenATXID
                    (insert cand rejectedAtxs) (Suc i) (tr @ [EvVerifyChain cand])
              | None \<Rightarrow> (Inr cand, rejectedAtxs, tr @ [EvVerifyChain cand]))))"
  by pat_completeness auto
termination
proof (relation "measure (\<lambda>(env, p, g, R, i, tr). length (filter (\<lambda>c. fst c \<notin> R) (atx_store env)))")
  show "wf (measure (\<lambda>(env, p, g, R, i, tr). length (filter (\<lambda>c. fst c \<notin> R) (atx_store env))))"
    by simp
next
  fix env :: Env and prefNodeID :: NodeID and goldenATXID :: ATXID and rejectedAtxs :: "ATXID set"
    and i :: nat and tr :: "event list" and x2 :: ATXID and x2a :: error
  assume "GetIDWithMaxHeight (atx_store env) prefNodeID (\<lambda>a. a \<notin> rejectedAtxs) = Inr x2"
  from GetIDWithMaxHeight_Inr[OF this] obtain h where "(x2, h) \<in> set (atx_store env)" "x2 \<notin> rejectedAtxs"
    by auto
  from filter_insert_less[OF this]
  show "((env, prefNodeID, goldenATXID, insert x2 rejectedAtxs, Suc i, tr @ [EvVerifyChain x2]),
         env, prefNodeID, goldenATXID, rejectedAtxs, i, tr)
        \<in> measure (\<lambda>(env, p, g, R, i, tr). length (filter (\<lambda>c. fst c \<notin> R) (atx_store env)))"
    by simp
qed

declare findFullyValidHighTickAtx.simps [simp del]

section \<open>Round timing\<close>

text \<open>
  Instants are whole numbers of nanoseconds without bound. A \<open>Duration\<close> is an
  \<open>int64\<close> in Go: \<open>time.Time.Sub\<close> saturates at the least and the greatest
  \<open>Duration\<close>, and \<open>time.Until(t)\<close> is \<open>t.Sub(time.Now())\<close>. The other operations
  on durations below (a product with 1, a quotient by 100, a sum with 1 and a negation)
  do not leave the range of \<open>int64\<close> for a grace period that is not negative.
\<close>

definition minDuration :: Duration where
  "minDuration = - (2 ^ 63)"

definition maxDuration :: Duration where
  "maxDuration = 2 ^ 63 - 1"

definition time_Sub :: "Time \<Rightarrow> Time \<Rightarrow> Duration" where
  "time_Sub t u = max minDuration (min maxDuration (t - u))"

definition time_Until :: "Time \<Rightarrow> Time \<Rightarrow> Duration" where
  "time_Until now t = time_Sub t now"

definition poetRoundStart :: "Env \<Rightarrow> Builder \<Rightarrow> EpochID \<Rightarrow> Time" where
  "poetRoundStart env b epoch = LayerToTime env (FirstLayer env epoch) + PhaseShift (poetCfg b)"

text \<open>
  The constant \<open>maxNipostChallengeBuildJitter = 1.0\<close> is untyped; in
  \<open>gracePeriod*maxNipostChallengeBuildJitter/100.0\<close> it and \<open>100.0\<close> take the type of
  \<open>gracePeriod\<close>, a \<open>time.Duration\<close>, so the product and the quotient are integer
  operations on nanoseconds, the division truncating towards zero (\<open>sdiv\<close>).
\<close>

definition maxNipostChallengeBuildJitter :: Duration where
  "maxNipostChallengeBuildJitter = 1"

text \<open>
  Modelled from the spec: \<open>randomDurationInRange\<close> is not among the sources. The spec has
  it draw uniformly from the closed range between its arguments; the draw is the random
  source's \<open>Int63n\<close> of the number of values in the range, added to the lower end.
\<close>

definition randomDurationInRange :: "Env \<Rightarrow> Duration \<Rightarrow> Duration \<Rightarrow> Duration" where
  "randomDurationInRange env lo hi = lo + rand_Int63n env (hi - lo + 1)"

definition buildNipostChallengeStartDeadline :: "Env \<Rightarrow> Time \<Rightarrow> Duration \<Rightarrow> Time" where
  "buildNipostChallengeStartDeadline env roundStart gracePeriod =
     (let jitter = randomDurationInRange env 0 ((gracePeriod * maxNipostChallengeBuildJitter) sdiv 100)
      in roundStart + jitter + (- gracePeriod))"

section \<open>Building the NIPost challenge\<close>

text \<open>
  \<open>BuildNIPostChallenge\<close> is one function in the source; its stages are named here.
  \<open>existing_challenge\<close> is the switch of lines 428 to 452: \<open>Some r\<close> when the function
  returns \<open>r\<close> there, \<open>None\<close> when it goes on to build a new challenge.
\<close>

definition existing_challenge ::
  "Env \<Rightarrow> Builder \<Rightarrow> NodeID \<Rightarrow> EpochID \<Rightarrow> (error + NIPostChallenge) option \<times> Builder" where
  "existing_challenge env b nodeID current =
     (case db_Challenge env b nodeID of
        Inl err \<Rightarrow>
          if errors_Is err ErrNotFound then (None, b)
          else (Some (Inl (Wrapf ''get nipost challenge'' err)), b)
      | Inr challenge \<Rightarrow>
          if PublishEpoch challenge < current then
            (case nipostBuilder_ResetState env
                    (b\<lparr>postStates := (postStates b)(nodeID \<mapsto> PostStateIdle)\<rparr>) nodeID of
               (Some err, b2) \<Rightarrow> (Some (Inl (Wrapf ''reset nipost builder state'' err)), b2)
             | (None, b2) \<Rightarrow>
                 (case db_RemoveChallenge env b2 nodeID of
                    (Some err, b3) \<Rightarrow> (Some (Inl (Wrapf ''remove stale nipost challenge'' err)), b3)
                  | (None, b3) \<Rightarrow> (None, b3)))
          else (Some (Inr challenge), b))"

text \<open>Lines 455 to 470: the epoch whose poet round the new challenge targets.\<close>

definition late_round :: "Env \<Rightarrow> Builder \<Rightarrow> EpochID \<Rightarrow> EpochID" where
  "late_round env b current =
     (if time_Until (now_round_check env) (poetRoundStart env b current) \<le> 0 then current + 1
      else current)"

definition target_epoch :: "Env \<Rightarrow> Builder \<Rightarrow> NodeID \<Rightarrow> EpochID \<Rightarrow> error + EpochID" where
  "target_epoch env b nodeID current =
     (case GetLastAtx_target env nodeID of
        Inr prev \<Rightarrow> Inr (late_round env b (max current (hdr_PublishEpoch prev)))
      | Inl err \<Rightarrow>
          if errors_Is err ErrNotFound then Inr (late_round env b current)
          else Inl (Wrapf ''get last ATX'' err))"

text \<open>Lines 472 to 485: the wait for the start of the build window.\<close>

definition wait_for_round :: "Env \<Rightarrow> Builder \<Rightarrow> EpochID \<Rightarrow> error option \<times> Builder" where
  "wait_for_round env b current =
     (let wait = buildNipostChallengeStartDeadline env (poetRoundStart env b current)
                   (GracePeriod (poetCfg b))
      in if time_Until (now_wait_check env) wait > 0 then
           (case round_wait env of
              CtxDone \<Rightarrow>
                (Some (ctx_Err env),
                 b\<lparr>trace := trace b @ [EvPoetWaitRound current (current + 1) wait]\<rparr>)
            | Fired \<Rightarrow>
                (None, b\<lparr>trace := trace b @ [EvPoetWaitRound current (current + 1) wait]\<rparr>))
         else (None, b))"

definition getPositioningAtx :: "Env \<Rightarrow> Builder \<Rightarrow> NodeID \<Rightarrow> (error + ATXID) \<times> Builder" where
  "getPositioningAtx env b nodeID =
     (case findFullyValidHighTickAtx env nodeID (GoldenATXID (conf b)) {} 0 (trace b) of
        (Inl err, rejected, tr) \<Rightarrow>
          if errors_Is err ErrNotFound then (Inr (GoldenATXID (conf b)), b\<lparr>trace := tr\<rparr>)
          else (Inl err, b\<lparr>trace := tr\<rparr>)
      | (Inr cand, rejected, tr) \<Rightarrow> (Inr cand, b\<lparr>trace := tr\<rparr>))"

text \<open>Lines 492 to 539: the initial or the regular challenge.\<close>

definition new_challenge ::
  "Env \<Rightarrow> Builder \<Rightarrow> NodeID \<Rightarrow> EpochID \<Rightarrow> ATXID \<Rightarrow> (error + NIPostChallenge) \<times> Builder" where
  "new_challenge env b nodeID current posAtx =
     (case GetLastAtx_build env nodeID of
        Inl err \<Rightarrow>
          if errors_Is err ErrNotFound then
            (case db_InitialPost env b nodeID of
               Inl e \<Rightarrow> (Inl (Wrapf ''get initial post'' e), b)
             | Inr post \<Rightarrow>
                 (case validator_Post env nodeID (post_CommitmentATX post)
                         \<lparr>Nonce = post_Nonce post, Indices = post_Indices post, Pow = post_Pow post\<rparr>
                         (LabelsPerUnit (conf b)) (post_NumUnits post) of
                    Some verr \<Rightarrow>
                      (case db_RemoveInitialPost env b nodeID of
                         (Some _, b1) \<Rightarrow> (Inl (LogFatal ''failed to remove initial post''), b1)
                       | (None, b1) \<Rightarrow> (Inl (Wrapf ''initial POST is invalid'' verr), b1))
                  | None \<Rightarrow>
                      (Inr \<lparr>PublishEpoch = current + 1,
                            Sequence = 0,
                            PrevATXID = EmptyATXID,
                            PositioningATX = posAtx,
                            CommitmentATX = Some (post_CommitmentATX post),
                            InitialPost = Some \<lparr>Nonce = post_Nonce post,
                                                 Indices = post_Indices post,
                                                 Pow = post_Pow post\<rparr>\<rparr>, b)))
          else (Inl (Wrapf ''get last ATX'' err), b)
      | Inr prevAtx \<Rightarrow>
          (Inr \<lparr>PublishEpoch = current + 1,
                Sequence = hdr_Sequence prevAtx + 1,
                PrevATXID = hdr_ID prevAtx,
                PositioningATX = posAtx,
                CommitmentATX = None,
                InitialPost = None\<rparr>, b))"

definition build_fresh ::
  "Env \<Rightarrow> Builder \<Rightarrow> NodeID \<Rightarrow> EpochID \<Rightarrow> (error + NIPostChallenge) \<times> Builder" where
  "build_fresh env b nodeID current =
     (case target_epoch env b nodeID current of
        Inl err \<Rightarrow> (Inl err, b)
      | Inr target \<Rightarrow>
          (case wait_for_round env b target of
             (Some err, b1) \<Rightarrow> (Inl err, b1)
           | (None, b1) \<Rightarrow>
               (case getPositioningAtx env b1 nodeID of
                  (Inl err, b2) \<Rightarrow> (Inl (Wrapf ''failed to get positioning ATX'' err), b2)
                | (Inr posAtx, b2) \<Rightarrow>
                    (case new_challenge env b2 nodeID target posAtx of
                       (Inl err, b3) \<Rightarrow> (Inl err, b3)
                     | (Inr challenge, b3) \<Rightarrow>
                         (case db_AddChallenge env b3 nodeID challenge of
                            (Some err, b4) \<Rightarrow> (Inl (Wrapf ''add nipost challenge'' err), b4)
                          | (None, b4) \<Rightarrow> (Inr challenge, b4))))))"

definition BuildNIPostChallenge ::
  "Env \<Rightarrow> Builder \<Rightarrow> NodeID \<Rightarrow> (error + NIPostChallenge) \<times> Builder" where
  "BuildNIPostChallenge env b nodeID =
     (case sync_wait env of
        CtxDone \<Rightarrow> (Inl (ctx_Err env), b)
      | Fired \<Rightarrow>
          (case existing_challenge env b nodeID (current_epoch env) of
             (Some r, b1) \<Rightarrow> (r, b1)
           | (None, b1) \<Rightarrow> build_fresh env b1 nodeID (current_epoch env)))"

text \<open>
  For stating properties of \<open>BuildNIPostChallenge\<close>: the builder after a stale Challenge
  has been discarded (post state idle, prover reset, Challenge removed), and the greater
  of the current epoch and the publish epoch of the identity's last ATX (the current
  epoch when the identity has no ATX), from which the target epoch is chosen.
\<close>

definition discard_stale :: "Builder \<Rightarrow> NodeID \<Rightarrow> Builder" where
  "discard_stale b nodeID =
     b\<lparr>localDB := snd (RemoveChallenge (localDB b) nodeID),
       postStates := (postStates b)(nodeID \<mapsto> PostStateIdle),
       trace := trace b @ [EvResetState nodeID, EvRemoveChallenge nodeID]\<rparr>"

definition base_epoch :: "Env \<Rightarrow> NodeID \<Rightarrow> EpochID" where
  "base_epoch env nodeID =
     (case GetLastAtx_target env nodeID of
        Inr prev \<Rightarrow> max (current_epoch env) (hdr_PublishEpoch prev)
      | Inl err \<Rightarrow> current_epoch env)"

section \<open>Creating and publishing the ATX\<close>

definition NewActivationTx ::
  "NIPostChallenge \<Rightarrow> 8 word list \<Rightarrow> 8 word list \<Rightarrow> 32 word \<Rightarrow> VRFPostIndex option
     \<Rightarrow> ActivationTx" where
  "NewActivationTx challenge coinbase nipost numUnits nonce =
     \<lparr>atx_NIPostChallenge = challenge,
      atx_Coinbase = coinbase,
      atx_NumUnits = numUnits,
      atx_NIPost = nipost,
      atx_NodeID = None,
      atx_VRFNonce = nonce,
      atx_SmesherID = 0,
      atx_Signature = [],
      atx_id = 0\<rparr>"

definition SignAndFinalizeAtx :: "Env \<Rightarrow> NodeID \<Rightarrow> ActivationTx \<Rightarrow> error + ActivationTx" where
  "SignAndFinalizeAtx env signer atx =
     (case atx_Initialize env
             (atx\<lparr>atx_Signature := signer_Sign env signer atx, atx_SmesherID := signer\<rparr>) of
        Inl err \<Rightarrow> Inl err
      | Inr i \<Rightarrow>
          Inr (atx\<lparr>atx_Signature := signer_Sign env signer atx, atx_SmesherID := signer,
                    atx_id := i\<rparr>))"

text \<open>Lines 648 to 664: the VRF nonce and the node id the ATX carries.\<close>

definition atx_nonce ::
  "Env \<Rightarrow> NodeID \<Rightarrow> NIPostChallenge \<Rightarrow> NIPostState \<Rightarrow> VRFPostIndex option \<times> NodeID option" where
  "atx_nonce env sig challenge nipostState =
     (if PrevATXID challenge = EmptyATXID then (Some (st_VRFNonce nipostState), Some sig)
      else
        (case atxs_VRFNonce env sig (PublishEpoch challenge) of
           Inl err \<Rightarrow> (None, None)
         | Inr oldNonce \<Rightarrow>
             if st_VRFNonce nipostState \<noteq> oldNonce then (Some (st_VRFNonce nipostState), None)
             else (None, None)))"

definition createAtx :: "Env \<Rightarrow> Builder \<Rightarrow> NodeID \<Rightarrow> NIPostChallenge \<Rightarrow> error + ActivationTx" where
  "createAtx env b sig challenge =
     (case BuildNIPost_result env sig challenge of
        Inl err \<Rightarrow> Inl (Wrapf ''build NIPost'' err)
      | Inr nipostState \<Rightarrow>
          (case publish_epoch_wait env of
             CtxDone \<Rightarrow> Inl (Wrapf ''wait for publication epoch'' (pub_ctx_Err env))
           | Fired \<Rightarrow>
               if PublishEpoch challenge < epoch_at_publication env then
                 (if InitialPost challenge \<noteq> None then
                    Inl (ErrorsNew ''atx publish epoch has passed during nipost construction'')
                  else
                    Inl (Wrapf ''atx publish epoch has passed during nipost construction''
                           ErrATXChallengeExpired))
               else
                 (case atx_nonce env sig challenge nipostState of
                    (nonce, atxNodeID) \<Rightarrow>
                      (case SignAndFinalizeAtx env sig
                              ((NewActivationTx challenge (coinbaseAccount b)
                                  (st_NIPost nipostState) (st_NumUnits nipostState) nonce)
                               \<lparr>atx_NodeID := atxNodeID\<rparr>) of
                         Inl err \<Rightarrow> Inl (Wrapf ''sign atx'' err)
                       | Inr atx \<Rightarrow> Inr atx))))"

text \<open>\<open>broadcast\<close>, for the attempt number \<open>i\<close> of the loop of \<open>PublishActivationTx\<close>.\<close>

definition broadcast ::
  "Env \<Rightarrow> nat \<Rightarrow> ActivationTx \<Rightarrow> event list \<Rightarrow> (error + nat) \<times> event list" where
  "broadcast env i atx tr =
     (case codec_Encode env atx of
        Inl err \<Rightarrow> (Inl (Wrapf ''failed to serialize ATX'' err), tr)
      | Inr buf \<Rightarrow>
          (case publisher_Publish env i buf of
             Some err \<Rightarrow> (Inl (Wrapf ''failed to broadcast ATX'' err), tr @ [EvPublish buf])
           | None \<Rightarrow> (Inr (length buf), tr @ [EvPublish buf])))"

text \<open>
  The loop of lines 582 to 595. It has no bound: the result is \<open>None\<close> when it never
  ends, \<open>Some (None, tr)\<close> when an attempt succeeded and \<open>Some (Some err, tr)\<close> when the
  context was done after a failed attempt.
\<close>

partial_function (option) broadcast_loop ::
  "Env \<Rightarrow> ActivationTx \<Rightarrow> nat \<Rightarrow> event list \<Rightarrow> (error option \<times> event list) option" where
  "broadcast_loop env atx i tr =
     (case broadcast env i atx tr of
        (Inr n, tr1) \<Rightarrow> Some (None, tr1)
      | (Inl err, tr1) \<Rightarrow>
          if broadcast_ctx_done env i then Some (Some (Wrapf ''broadcast'' (pub_ctx_Err env)), tr1)
          else broadcast_loop env atx (Suc i) tr1)"

text \<open>Lines 597 to 608: what follows the successful broadcast.\<close>

definition after_broadcast :: "Env \<Rightarrow> Builder \<Rightarrow> NodeID \<Rightarrow> error option \<times> Builder" where
  "after_broadcast env b sig =
     (case nipostBuilder_ResetState env b sig of
        (Some err, b1) \<Rightarrow> (Some (Wrapf ''reset nipost builder state'' err), b1)
      | (None, b1) \<Rightarrow>
          (case db_RemoveChallenge env b1 sig of
             (Some err, b2) \<Rightarrow> (Some (Wrapf ''discarding challenge after published ATX'' err), b2)
           | (None, b2) \<Rightarrow> (None, b2)))"

definition PublishActivationTx :: "Env \<Rightarrow> Builder \<Rightarrow> NodeID \<Rightarrow> (error option \<times> Builder) option" where
  "PublishActivationTx env b sig =
     (case BuildNIPostChallenge env b sig of
        (Inl err, b1) \<Rightarrow> Some (Some err, b1)
      | (Inr challenge, b1) \<Rightarrow>
          (case createAtx env b1 sig challenge of
             Inl err \<Rightarrow> Some (Some (Wrapf ''create ATX'' err), b1)
           | Inr atx \<Rightarrow>
               (case broadcast_loop env atx 0 (trace b1) of
                  None \<Rightarrow> None
                | Some (Some err, tr) \<Rightarrow> Some (Some err, b1\<lparr>trace := tr\<rparr>)
                | Some (None, tr) \<Rightarrow> Some (after_broadcast env (b1\<lparr>trace := tr\<rparr>) sig))))"

text \<open>
  For stating properties of the loop: whether the attempt number \<open>i\<close> of \<open>broadcast\<close>
  succeeds, and the publications that \<open>n\<close> attempts leave in the trace.
\<close>

definition attempt_ok :: "Env \<Rightarrow> ActivationTx \<Rightarrow> nat \<Rightarrow> bool" where
  "attempt_ok env atx i =
     (case codec_Encode env atx of
        Inl err \<Rightarrow> False
      | Inr buf \<Rightarrow> publisher_Publish env i buf = None)"

definition publications :: "Env \<Rightarrow> ActivationTx \<Rightarrow> nat \<Rightarrow> event list" where
  "publications env atx n =
     (case codec_Encode env atx of
        Inl err \<Rightarrow> []
      | Inr buf \<Rightarrow> replicate n (EvPublish buf))"

section \<open>The control loop's reaction to a failed publication\<close>



section \<open>Stopping\<close>

text \<open>The loop of lines 278 to 291 over the registered identities.\<close>

fun reset_signers :: "Env \<Rightarrow> NodeID list \<Rightarrow> error option \<Rightarrow> Builder \<Rightarrow> error option \<times> Builder" where
  "reset_signers env [] resetErr b = (resetErr, b)"
| "reset_signers env (sig # sigs) resetErr b =
     (case nipostBuilder_ResetState env
             (b\<lparr>postStates := (postStates b)(sig \<mapsto> PostStateIdle)\<rparr>) sig of
        (Some err, b1) \<Rightarrow>
          reset_signers env sigs
            (errors_Join resetErr (Some (Wrapf ''reset builder state for id'' err))) b1
      | (None, b1) \<Rightarrow>
          (case db_RemoveChallenge env b1 sig of
             (Some err, b2) \<Rightarrow>
               reset_signers env sigs
                 (errors_Join resetErr (Some (Wrapf ''remove nipost challenge for id'' err))) b2
           | (None, b2) \<Rightarrow> reset_signers env sigs resetErr b2))"

definition StopSmeshing :: "Env \<Rightarrow> Builder \<Rightarrow> bool \<Rightarrow> error option \<times> Builder" where
  "StopSmeshing env b deleteFiles =
     (if \<not> Smeshing b then (Some (ErrorsNew ''not started''), b)
      else
        (case eg_Wait env of
           None \<Rightarrow>
             if \<not> deleteFiles then (None, b\<lparr>Smeshing := False, trace := trace b @ [EvStop, EvWait]\<rparr>)
             else reset_signers env (signers b) None
                    (b\<lparr>Smeshing := False, trace := trace b @ [EvStop, EvWait]\<rparr>)
         | Some err \<Rightarrow>
             if errors_Is err ContextCanceled then
               (if \<not> deleteFiles then
                  (None, b\<lparr>Smeshing := False, trace := trace b @ [EvStop, EvWait]\<rparr>)
                else reset_signers env (signers b) None
                       (b\<lparr>Smeshing := False, trace := trace b @ [EvStop, EvWait]\<rparr>))
             else
               (Some (Wrapf ''failed to stop smeshing'' err),
                b\<lparr>Smeshing := False, trace := trace b @ [EvStop, EvWait]\<rparr>)))"

text \<open>
  For stating properties of \<open>StopSmeshing\<close>: the calls the loop makes for one identity
  (the removal follows only a successful reset), the failure it records for the identity
  (none when both steps succeed), how a failure is joined to the errors so far
  (\<open>errors.Join\<close> is called in the failure branches only), and whether \<open>eg.Wait()\<close>
  ended with nil or a cancellation.
\<close>

definition reset_events :: "Env \<Rightarrow> NodeID \<Rightarrow> event list" where
  "reset_events env sig =
     EvResetState sig # (if ResetState_result env sig = None then [EvRemoveChallenge sig] else [])"

definition reset_failure :: "Env \<Rightarrow> NodeID \<Rightarrow> error option" where
  "reset_failure env sig =
     (case ResetState_result env sig of
        Some err \<Rightarrow> Some (Wrapf ''reset builder state for id'' err)
      | None \<Rightarrow>
          (case db_fault env OpRemoveChallenge sig of
             Some err \<Rightarrow> Some (Wrapf ''remove nipost challenge for id'' err)
           | None \<Rightarrow> None))"

definition join_failure :: "error option \<Rightarrow> error option \<Rightarrow> error option" where
  "join_failure resetErr failure =
     (case failure of
        None \<Rightarrow> resetErr
      | Some err \<Rightarrow> errors_Join resetErr (Some err))"

definition wait_clean :: "Env \<Rightarrow> bool" where
  "wait_clean env =
     (case eg_Wait env of
        None \<Rightarrow> True
      | Some err \<Rightarrow> errors_Is err ContextCanceled)"

section \<open>Concrete scenarios\<close>

text \<open>
  One identity, \<open>1\<close>, whose last ATX was published in epoch 4. The clock is in epoch 7;
  the poet round of epoch 7 starts at 70500 and it is 60000. Three ATXs are known: 21 of
  height 30, whose chain does not verify, 22 of height 20 and 23 of height 10. The first
  two publications on the ATX channel fail.
\<close>

definition hdr_last :: ActivationTxHeader where
  "hdr_last = \<lparr>hdr_ID = 17, hdr_PublishEpoch = 4, hdr_Sequence = 2\<rparr>"

definition st_fresh :: NIPostState where
  "st_fresh = \<lparr>st_NIPost = [1, 2], st_NumUnits = 4, st_VRFNonce = 9\<rparr>"

definition env_ok :: Env where
  "env_ok =
     \<lparr>ctx_Err = ContextCanceled,
      pub_ctx_Err = ContextCanceled,
      sync_wait = Fired,
      round_wait = Fired,
      publish_epoch_wait = Fired,
      layer_wait = Fired,
      retry_wait = Fired,
      positioning_ctx_done = (\<lambda>i. False),
      broadcast_ctx_done = (\<lambda>i. False),
      current_epoch = 7,
      epoch_at_publication = 8,
      LayerToTime = (\<lambda>l. 1000 * uint l),
      FirstLayer = (\<lambda>e. 10 * e),
      now_round_check = 60000,
      now_wait_check = 60500,
      rand_Int63n = (\<lambda>n. 0),
      GetLastAtx_target = (\<lambda>n. Inr hdr_last),
      GetLastAtx_build = (\<lambda>n. Inr hdr_last),
      atx_store = [(23, 10), (21, 30), (22, 20)],
      atxs_VRFNonce = (\<lambda>n e. Inr 9),
      db_fault = (\<lambda>op n. None),
      ResetState_result = (\<lambda>n. None),
      BuildNIPost_result = (\<lambda>n c. Inr st_fresh),
      validator_Post = (\<lambda>n a p l u. None),
      validator_VerifyChain = (\<lambda>a g. if a = 21 then Some (ErrorsNew ''invalid chain'') else None),
      signer_Sign = (\<lambda>n a. [7]),
      atx_Initialize = (\<lambda>a. Inr 99),
      codec_Encode = (\<lambda>a. Inr [1, 2, 3]),
      publisher_Publish = (\<lambda>i buf. if i < 2 then Some (ErrorsNew ''no peers'') else None),
      eg_Wait = None\<rparr>"

definition ch_old :: NIPostChallenge where
  "ch_old = \<lparr>PublishEpoch = 5, Sequence = 3, PrevATXID = 17, PositioningATX = 16,
             CommitmentATX = None, InitialPost = None\<rparr>"

definition ch_new :: NIPostChallenge where
  "ch_new = \<lparr>PublishEpoch = 8, Sequence = 3, PrevATXID = 17, PositioningATX = 22,
             CommitmentATX = None, InitialPost = None\<rparr>"

definition ch_initial :: NIPostChallenge where
  "ch_initial = \<lparr>PublishEpoch = 8, Sequence = 0, PrevATXID = EmptyATXID, PositioningATX = 22,
             CommitmentATX = Some 30,
             InitialPost = Some \<lparr>Nonce = 1, Indices = [1, 2, 3], Pow = 1\<rparr>\<rparr>"

definition b_idle :: Builder where
  "b_idle =
     \<lparr>coinbaseAccount = [5],
      conf = \<lparr>GoldenATXID = 1000, LabelsPerUnit = 1024, RegossipInterval = 0\<rparr>,
      poetCfg = \<lparr>PhaseShift = 500, CycleGap = 200, GracePeriod = 100, RequestTimeout = 10,
                 RequestRetryDelay = 1, MaxRequestRetries = 10\<rparr>,
      localDB = \<lparr>challenge_tbl = Map.empty, initial_post_tbl = Map.empty\<rparr>,
      postStates = [1 \<mapsto> PostStateProving],
      signers = [1],
      Smeshing = True,
      trace = []\<rparr>"

definition b_with :: "NIPostChallenge \<Rightarrow> Builder" where
  "b_with ch = b_idle\<lparr>localDB := \<lparr>challenge_tbl = [1 \<mapsto> ch], initial_post_tbl = Map.empty\<rparr>\<rparr>"

text \<open>The ATX that \<open>createAtx\<close> builds from \<open>ch_new\<close> in this scenario.\<close>

definition atx_regular :: ActivationTx where
  "atx_regular =
     \<lparr>atx_NIPostChallenge = ch_new, atx_Coinbase = [5], atx_NumUnits = 4, atx_NIPost = [1, 2],
      atx_NodeID = None, atx_VRFNonce = None, atx_SmesherID = 1, atx_Signature = [7],
      atx_id = 99\<rparr>"

text \<open>
  The builder after \<open>BuildNIPostChallenge\<close> has replaced the stale \<open>ch_old\<close> by
  \<open>ch_new\<close> in this scenario.
\<close>

definition b_rebuilt :: Builder where
  "b_rebuilt =
     b_idle\<lparr>localDB := \<lparr>challenge_tbl = [1 \<mapsto> ch_new], initial_post_tbl = Map.empty\<rparr>,
            postStates := [1 \<mapsto> PostStateIdle],
            trace := [EvResetState 1, EvRemoveChallenge 1, EvPoetWaitRound 7 8 70400,
                      EvVerifyChain 21, EvVerifyChain 22]\<rparr>"

text \<open>
  The same scenario with the clock in the last epoch that a \<open>uint32\<close> holds, and the
  challenge and the builder that \<open>BuildNIPostChallenge\<close> then leaves in place of the
  stale \<open>ch_old\<close>: the poet round of that epoch starts at 4294967286500.
\<close>

definition env_wrap :: Env where
  "env_wrap = env_ok\<lparr>current_epoch := 0xFFFFFFFF\<rparr>"

definition ch_wrapped :: NIPostChallenge where
  "ch_wrapped = \<lparr>PublishEpoch = 0, Sequence = 3, PrevATXID = 17, PositioningATX = 22,
             CommitmentATX = None, InitialPost = None\<rparr>"

definition b_wrapped :: Builder where
  "b_wrapped =
     b_idle\<lparr>localDB := \<lparr>challenge_tbl = [1 \<mapsto> ch_wrapped], initial_post_tbl = Map.empty\<rparr>,
            postStates := [1 \<mapsto> PostStateIdle],
            trace := [EvResetState 1, EvRemoveChallenge 1,
                      EvPoetWaitRound 0xFFFFFFFF 0 4294967286400,
                      EvVerifyChain 21, EvVerifyChain 22]\<rparr>"

text \<open>The same scenario with an ATX store that cannot read the recorded VRF nonce.\<close>

definition env_no_nonce :: Env where
  "env_no_nonce = env_ok\<lparr>atxs_VRFNonce := (\<lambda>n e. Inl ErrNotFound)\<rparr>"

text \<open>
  Two registered identities, each with a persisted Challenge, and a prover whose
  \<open>ResetState\<close> fails for identity 1 only.
\<close>

definition env_reset_fails :: Env where
  "env_reset_fails =
     env_ok\<lparr>ResetState_result :=
              (\<lambda>n. if n = 1 then Some (ErrorsNew ''post service unavailable'') else None)\<rparr>"

definition b_two :: Builder where
  "b_two =
     b_idle\<lparr>localDB := \<lparr>challenge_tbl = [1 \<mapsto> ch_old, 2 \<mapsto> ch_new],
                         initial_post_tbl = Map.empty\<rparr>,
            postStates := [1 \<mapsto> PostStateProving, 2 \<mapsto> PostStateProving],
            signers := [1, 2]\<rparr>"

section \<open>Uniqueness of the persisted Challenge\<close>

text \<open>
  C2. While a Challenge is persisted for an identity, adding a second one for the same
  identity returns an error and leaves the database as it was, so the first Challenge is
  still the one read back; adding the Challenge for another identity that has none
  succeeds, stores it, and does not disturb the first identity's Challenge.
\<close>

theorem AddChallenge_no_duplicates:
  assumes "Challenge db nodeID = Inr ch1"
  shows "(\<exists>e. fst (AddChallenge db nodeID ch2) = Some e)
       \<and> snd (AddChallenge db nodeID ch2) = db
       \<and> Challenge (snd (AddChallenge db nodeID ch2)) nodeID = Inr ch1
       \<and> (challenge_tbl db other = None \<longrightarrow>
            fst (AddChallenge db other ch2) = None
          \<and> Challenge (snd (AddChallenge db other ch2)) other = Inr ch2
          \<and> Challenge (snd (AddChallenge db other ch2)) nodeID = Inr ch1)"
proof -
  from assms obtain c where c: "challenge_tbl db nodeID = Some c"
    by (auto simp: Challenge_def split: option.splits)
  with assms have "c = ch1"
    by (simp add: Challenge_def)
  with c have stored: "challenge_tbl db nodeID = Some ch1"
    by simp
  have same: "(\<exists>e. fst (AddChallenge db nodeID ch2) = Some e)
      \<and> snd (AddChallenge db nodeID ch2) = db"
    using stored by (simp add: AddChallenge_def)
  have other: "challenge_tbl db other = None \<Longrightarrow>
      fst (AddChallenge db other ch2) = None
      \<and> Challenge (snd (AddChallenge db other ch2)) other = Inr ch2
      \<and> Challenge (snd (AddChallenge db other ch2)) nodeID = Inr ch1"
    using stored by (auto simp: AddChallenge_def Challenge_def)
  from same other assms show ?thesis
    by simp
qed

theorem AddChallenge_no_duplicates_witness:
  "Challenge (localDB (b_with ch_old)) 1 = Inr ch_old
   \<and> fst (AddChallenge (localDB (b_with ch_old)) 1 ch_new)
        = Some (Wrapf ''insert nipost challenge'' (ErrorsNew ''constraint failed''))
   \<and> snd (AddChallenge (localDB (b_with ch_old)) 1 ch_new) = localDB (b_with ch_old)
   \<and> fst (AddChallenge (localDB (b_with ch_old)) 2 ch_new) = None
   \<and> Challenge (snd (AddChallenge (localDB (b_with ch_old)) 2 ch_new)) 2 = Inr ch_new
   \<and> Challenge (snd (AddChallenge (localDB (b_with ch_old)) 2 ch_new)) 1 = Inr ch_old"
proof -
  have h: "Challenge (localDB (b_with ch_old)) 1 = Inr ch_old"
    by (simp add: Challenge_def b_with_def)
  have free: "challenge_tbl (localDB (b_with ch_old)) 2 = None"
    by (simp add: b_with_def)
  have e: "fst (AddChallenge (localDB (b_with ch_old)) 1 ch_new)
        = Some (Wrapf ''insert nipost challenge'' (ErrorsNew ''constraint failed''))"
    by (simp add: AddChallenge_def b_with_def)
  from AddChallenge_no_duplicates[OF h, of ch_new 2] free
  have "snd (AddChallenge (localDB (b_with ch_old)) 1 ch_new) = localDB (b_with ch_old)"
    and "fst (AddChallenge (localDB (b_with ch_old)) 2 ch_new) = None"
    and "Challenge (snd (AddChallenge (localDB (b_with ch_old)) 2 ch_new)) 2 = Inr ch_new"
    and "Challenge (snd (AddChallenge (localDB (b_with ch_old)) 2 ch_new)) 1 = Inr ch_old"
    by simp_all
  with h e show ?thesis
    by (intro conjI)
qed

section \<open>Expiry of the challenge during the construction of the NIPost\<close>





section \<open>The broadcast loop\<close>

lemma broadcast_ok:
  "attempt_ok env atx i \<Longrightarrow>
     \<exists>n. broadcast env i atx tr = (Inr n, tr @ publications env atx 1)"
  by (auto simp: attempt_ok_def broadcast_def publications_def split: sum.splits option.splits)

lemma broadcast_failed:
  "\<not> attempt_ok env atx i \<Longrightarrow>
     \<exists>err. broadcast env i atx tr = (Inl err, tr @ publications env atx 1)"
  by (auto simp: attempt_ok_def broadcast_def publications_def split: sum.splits option.splits)

lemma publications_Suc:
  "publications env atx 1 @ publications env atx n = publications env atx (Suc n)"
  by (simp add: publications_def split: sum.splits)

lemma broadcast_loop_success:
  "attempt_ok env atx i \<Longrightarrow>
     broadcast_loop env atx i tr = Some (None, tr @ publications env atx 1)"
  using broadcast_ok[of env atx i tr]
  by (subst broadcast_loop.simps) auto

lemma broadcast_loop_cancelled:
  "\<not> attempt_ok env atx i \<Longrightarrow> broadcast_ctx_done env i \<Longrightarrow>
     broadcast_loop env atx i tr
       = Some (Some (Wrapf ''broadcast'' (pub_ctx_Err env)), tr @ publications env atx 1)"
  using broadcast_failed[of env atx i tr]
  by (subst broadcast_loop.simps) auto

lemma broadcast_loop_retry:
  "\<not> attempt_ok env atx i \<Longrightarrow> \<not> broadcast_ctx_done env i \<Longrightarrow>
     broadcast_loop env atx i tr = broadcast_loop env atx (Suc i) (tr @ publications env atx 1)"
  using broadcast_failed[of env atx i tr]
  by (subst broadcast_loop.simps) auto

lemma broadcast_loop_ends:
  assumes "\<forall>j. i \<le> j \<and> j < k \<longrightarrow> \<not> attempt_ok env atx j \<and> \<not> broadcast_ctx_done env j"
    and "i \<le> k"
    and "attempt_ok env atx k \<or> broadcast_ctx_done env k"
  shows "broadcast_loop env atx i tr
           = Some (if attempt_ok env atx k then None
                   else Some (Wrapf ''broadcast'' (pub_ctx_Err env)),
                   tr @ publications env atx (Suc k - i))"
  using assms
proof (induction "k - i" arbitrary: i tr)
  case 0
  then have "i = k" by simp
  with 0 show ?case
    by (cases "attempt_ok env atx k")
       (simp_all add: broadcast_loop_success broadcast_loop_cancelled)
next
  case (Suc d)
  then have lt: "i < k" by simp
  with Suc.prems have retry: "\<not> attempt_ok env atx i" "\<not> broadcast_ctx_done env i"
    by auto
  have d: "d = k - Suc i" using Suc.hyps lt by simp
  have rest: "\<forall>j. Suc i \<le> j \<and> j < k \<longrightarrow> \<not> attempt_ok env atx j \<and> \<not> broadcast_ctx_done env j"
    using Suc.prems by simp
  have le: "Suc i \<le> k" using lt by simp
  have step: "broadcast_loop env atx (Suc i) (tr @ publications env atx 1)
           = Some (if attempt_ok env atx k then None
                   else Some (Wrapf ''broadcast'' (pub_ctx_Err env)),
                   (tr @ publications env atx 1) @ publications env atx (Suc k - Suc i))"
    using Suc.hyps(1)[OF d rest le Suc.prems(3)] .
  have cnt: "Suc (k - i) = Suc k - i" using lt by simp
  show ?case
    unfolding broadcast_loop_retry[OF retry] step
    by (simp add: publications_Suc del: One_nat_def) (simp add: cnt)
qed

lemma broadcast_loop_Some_ends:
  assumes "broadcast_loop env atx i tr = Some r"
  shows "\<exists>k\<ge>i. attempt_ok env atx k \<or> broadcast_ctx_done env k"
proof (rule broadcast_loop.raw_induct
    [where P = "\<lambda>env atx i tr r. \<exists>k\<ge>i. attempt_ok env atx k \<or> broadcast_ctx_done env k",
      OF _ assms], goal_cases)
  case (1 f env atx i tr r)
  show ?case
  proof (cases "attempt_ok env atx i \<or> broadcast_ctx_done env i")
    case True
    then show ?thesis by auto
  next
    case False
    then obtain err where "broadcast env i atx tr = (Inl err, tr @ publications env atx 1)"
      using broadcast_failed[of env atx i tr] by auto
    with 1(2) False have "f env atx (Suc i) (tr @ publications env atx 1) = Some r"
      by simp
    with 1(1) obtain k where "k \<ge> Suc i" "attempt_ok env atx k \<or> broadcast_ctx_done env k"
      by blast
    then show ?thesis
      by (intro exI[of _ k]) simp
  qed
qed

lemma broadcast_loop_None_iff:
  "broadcast_loop env atx i tr = None
     \<longleftrightarrow> (\<forall>k\<ge>i. \<not> attempt_ok env atx k \<and> \<not> broadcast_ctx_done env k)"
proof
  assume n: "broadcast_loop env atx i tr = None"
  show "\<forall>k\<ge>i. \<not> attempt_ok env atx k \<and> \<not> broadcast_ctx_done env k"
  proof (rule ccontr)
    assume "\<not> (\<forall>k\<ge>i. \<not> attempt_ok env atx k \<and> \<not> broadcast_ctx_done env k)"
    then have ex: "\<exists>k. i \<le> k \<and> (attempt_ok env atx k \<or> broadcast_ctx_done env k)"
      by auto
    define k where "k = (LEAST k. i \<le> k \<and> (attempt_ok env atx k \<or> broadcast_ctx_done env k))"
    have k: "i \<le> k \<and> (attempt_ok env atx k \<or> broadcast_ctx_done env k)"
      unfolding k_def using ex by (rule LeastI_ex)
    have least: "\<forall>j. i \<le> j \<and> j < k \<longrightarrow> \<not> attempt_ok env atx j \<and> \<not> broadcast_ctx_done env j"
      unfolding k_def using not_less_Least by blast
    from broadcast_loop_ends[OF least, of tr] k n show False
      by simp
  qed
next
  assume a: "\<forall>k\<ge>i. \<not> attempt_ok env atx k \<and> \<not> broadcast_ctx_done env k"
  show "broadcast_loop env atx i tr = None"
  proof (cases "broadcast_loop env atx i tr")
    case None
    then show ?thesis .
  next
    case (Some r)
    from broadcast_loop_Some_ends[OF Some] a show ?thesis
      by auto
  qed
qed

lemma broadcast_loop_Some_trace:
  assumes "broadcast_loop env atx i tr = Some (res, tr')"
  shows "\<exists>k\<ge>i. tr' = tr @ publications env atx (Suc k - i)
           \<and> (res = None \<longleftrightarrow> attempt_ok env atx k)"
proof -
  from broadcast_loop_Some_ends[OF assms]
  have ex: "\<exists>k. i \<le> k \<and> (attempt_ok env atx k \<or> broadcast_ctx_done env k)"
    by auto
  define k where "k = (LEAST k. i \<le> k \<and> (attempt_ok env atx k \<or> broadcast_ctx_done env k))"
  have k: "i \<le> k \<and> (attempt_ok env atx k \<or> broadcast_ctx_done env k)"
    unfolding k_def using ex by (rule LeastI_ex)
  have least: "\<forall>j. i \<le> j \<and> j < k \<longrightarrow> \<not> attempt_ok env atx j \<and> \<not> broadcast_ctx_done env j"
    unfolding k_def using not_less_Least by blast
  from k have le: "i \<le> k" and e: "attempt_ok env atx k \<or> broadcast_ctx_done env k"
    by simp_all
  from broadcast_loop_ends[OF least le e, of tr] assms
  have "tr' = tr @ publications env atx (Suc k - i)" "res = None \<longleftrightarrow> attempt_ok env atx k"
    by (simp_all split: if_splits)
  with le show ?thesis
    by (intro exI[of _ k]) simp
qed

section \<open>The VRF nonce of the ATX\<close>

lemma errors_Is_refl: "errors_Is e e"
  by (cases e) simp_all

lemma SignAndFinalizeAtx_fields:
  "SignAndFinalizeAtx env sig a = Inr atx \<Longrightarrow>
     atx_VRFNonce atx = atx_VRFNonce a \<and> atx_NodeID atx = atx_NodeID a
     \<and> atx_NIPostChallenge atx = atx_NIPostChallenge a \<and> atx_SmesherID atx = sig
     \<and> atx_Signature atx = signer_Sign env sig a"
  by (auto simp: SignAndFinalizeAtx_def split: sum.splits)

lemma createAtx_Inr:
  assumes "createAtx env b sig challenge = Inr atx"
    and "BuildNIPost_result env sig challenge = Inr st"
  shows "publish_epoch_wait env = Fired \<and> \<not> PublishEpoch challenge < epoch_at_publication env
     \<and> SignAndFinalizeAtx env sig
          ((NewActivationTx challenge (coinbaseAccount b) (st_NIPost st) (st_NumUnits st)
              (fst (atx_nonce env sig challenge st)))
           \<lparr>atx_NodeID := snd (atx_nonce env sig challenge st)\<rparr>) = Inr atx"
  using assms
  by (simp add: createAtx_def split: select_result.splits if_splits prod.splits sum.splits)

lemma createAtx_nonce:
  assumes "createAtx env b sig challenge = Inr atx"
    and "BuildNIPost_result env sig challenge = Inr st"
  shows "atx_VRFNonce atx = fst (atx_nonce env sig challenge st)"
    and "atx_NodeID atx = snd (atx_nonce env sig challenge st)"
    and "atx_NIPostChallenge atx = challenge"
  using SignAndFinalizeAtx_fields[OF createAtx_Inr[OF assms, THEN conjunct2, THEN conjunct2]]
  by (simp_all add: NewActivationTx_def)

text \<open>
  C8. For an ATX that \<open>createAtx\<close> returns, built from the NIPost state \<open>st\<close>: an initial
  challenge (empty previous ATX id) always carries the fresh VRF nonce of \<open>st\<close>; with a
  previous ATX, a nonce in the ATX is the fresh nonce and the recorded nonce was read and
  differs from it; when the recorded nonce equals the fresh one the ATX carries none,
  and when it differs the ATX carries the fresh one.
\<close>

theorem createAtx_vrf_nonce:
  assumes "createAtx env b sig challenge = Inr atx"
    and "BuildNIPost_result env sig challenge = Inr st"
  shows "(PrevATXID challenge = EmptyATXID \<longrightarrow> atx_VRFNonce atx = Some (st_VRFNonce st))
     \<and> (PrevATXID challenge \<noteq> EmptyATXID \<longrightarrow>
          (\<forall>n. atx_VRFNonce atx = Some n \<longrightarrow>
               n = st_VRFNonce st
             \<and> (\<exists>old. atxs_VRFNonce env sig (PublishEpoch challenge) = Inr old
                    \<and> st_VRFNonce st \<noteq> old))
        \<and> (atxs_VRFNonce env sig (PublishEpoch challenge) = Inr (st_VRFNonce st) \<longrightarrow>
             atx_VRFNonce atx = None)
        \<and> (\<forall>old. atxs_VRFNonce env sig (PublishEpoch challenge) = Inr old
                \<and> st_VRFNonce st \<noteq> old \<longrightarrow>
             atx_VRFNonce atx = Some (st_VRFNonce st)))"
  unfolding createAtx_nonce(1)[OF assms]
  by (auto simp: atx_nonce_def split: sum.splits if_splits)

lemma createAtx_regular: "createAtx env_ok (b_with ch_new) 1 ch_new = Inr atx_regular"
  by (simp add: createAtx_def env_ok_def ch_new_def st_fresh_def atx_nonce_def EmptyATXID_def
      SignAndFinalizeAtx_def NewActivationTx_def b_with_def b_idle_def atx_regular_def)

lemma createAtx_changed_nonce:
  "createAtx (env_ok\<lparr>atxs_VRFNonce := (\<lambda>n e. Inr 8)\<rparr>) (b_with ch_new) 1 ch_new
     = Inr (atx_regular\<lparr>atx_VRFNonce := Some 9\<rparr>)"
  by (simp add: createAtx_def env_ok_def ch_new_def st_fresh_def atx_nonce_def EmptyATXID_def
      SignAndFinalizeAtx_def NewActivationTx_def b_with_def b_idle_def atx_regular_def)

lemma createAtx_initial:
  "createAtx env_ok (b_with ch_initial) 1 ch_initial
     = Inr (atx_regular\<lparr>atx_NIPostChallenge := ch_initial, atx_NodeID := Some 1,
                        atx_VRFNonce := Some 9\<rparr>)"
  by (simp add: createAtx_def env_ok_def ch_initial_def st_fresh_def atx_nonce_def EmptyATXID_def
      SignAndFinalizeAtx_def NewActivationTx_def b_with_def b_idle_def atx_regular_def)

theorem createAtx_vrf_nonce_witness:
  "createAtx env_ok (b_with ch_new) 1 ch_new = Inr atx_regular
   \<and> BuildNIPost_result env_ok 1 ch_new = Inr st_fresh
   \<and> PrevATXID ch_new \<noteq> EmptyATXID
   \<and> atxs_VRFNonce env_ok 1 (PublishEpoch ch_new) = Inr (st_VRFNonce st_fresh)
   \<and> atx_VRFNonce atx_regular = None
   \<and> atx_VRFNonce (atx_regular\<lparr>atx_VRFNonce := Some 9\<rparr>) = Some (st_VRFNonce st_fresh)
   \<and> PrevATXID ch_initial = EmptyATXID
   \<and> atx_VRFNonce (atx_regular\<lparr>atx_NIPostChallenge := ch_initial, atx_NodeID := Some 1,
                        atx_VRFNonce := Some 9\<rparr>) = Some (st_VRFNonce st_fresh)"
proof -
  have st: "BuildNIPost_result env_ok 1 ch_new = Inr st_fresh"
    "BuildNIPost_result env_ok 1 ch_initial = Inr st_fresh"
    "BuildNIPost_result (env_ok\<lparr>atxs_VRFNonce := (\<lambda>n e. Inr 8)\<rparr>) 1 ch_new = Inr st_fresh"
    by (simp_all add: env_ok_def)
  have prev: "PrevATXID ch_new \<noteq> EmptyATXID" "PrevATXID ch_initial = EmptyATXID"
    by (simp_all add: ch_new_def ch_initial_def EmptyATXID_def)
  have same: "atxs_VRFNonce env_ok 1 (PublishEpoch ch_new) = Inr (st_VRFNonce st_fresh)"
    by (simp add: env_ok_def st_fresh_def)
  have differs: "atxs_VRFNonce (env_ok\<lparr>atxs_VRFNonce := (\<lambda>n e. Inr 8)\<rparr>) 1 (PublishEpoch ch_new) = Inr 8"
    "st_VRFNonce st_fresh \<noteq> 8"
    by (simp_all add: st_fresh_def)
  from createAtx_vrf_nonce[OF createAtx_regular st(1)] prev(1) same
  have none: "atx_VRFNonce atx_regular = None"
    by simp
  from createAtx_vrf_nonce[OF createAtx_changed_nonce st(3)] prev(1) differs
  have changed: "atx_VRFNonce (atx_regular\<lparr>atx_VRFNonce := Some 9\<rparr>) = Some (st_VRFNonce st_fresh)"
    by simp
  from createAtx_vrf_nonce[OF createAtx_initial st(2)] prev(2)
  have some: "atx_VRFNonce (atx_regular\<lparr>atx_NIPostChallenge := ch_initial, atx_NodeID := Some 1,
                        atx_VRFNonce := Some 9\<rparr>) = Some (st_VRFNonce st_fresh)"
    by simp
  from createAtx_regular st(1) prev same none changed some show ?thesis
    by (intro conjI)
qed

section \<open>Publication\<close>

lemma PublishActivationTx_loop:
  assumes "BuildNIPostChallenge env b sig = (Inr challenge, b1)"
    and "createAtx env b1 sig challenge = Inr atx"
  shows "PublishActivationTx env b sig =
           (case broadcast_loop env atx 0 (trace b1) of
              None \<Rightarrow> None
            | Some (Some err, tr) \<Rightarrow> Some (Some err, b1\<lparr>trace := tr\<rparr>)
            | Some (None, tr) \<Rightarrow> Some (after_broadcast env (b1\<lparr>trace := tr\<rparr>) sig))"
  using assms by (simp add: PublishActivationTx_def)

lemma after_broadcast_trace:
  "trace (snd (after_broadcast env b sig))
     = trace b @ EvResetState sig # (if ResetState_result env sig = None then [EvRemoveChallenge sig] else [])"
  by (simp add: after_broadcast_def nipostBuilder_ResetState_def db_RemoveChallenge_def
      RemoveChallenge_def split: option.splits)

lemma after_broadcast_ok:
  "ResetState_result env sig = None \<Longrightarrow> db_fault env OpRemoveChallenge sig = None \<Longrightarrow>
     fst (after_broadcast env b sig) = None
     \<and> challenge_tbl (localDB (snd (after_broadcast env b sig))) sig = None
     \<and> postStates (snd (after_broadcast env b sig)) = postStates b"
  by (simp add: after_broadcast_def nipostBuilder_ResetState_def db_RemoveChallenge_def
      RemoveChallenge_def)

lemma PublishActivationTx_returned_trace:
  assumes "BuildNIPostChallenge env b sig = (Inr challenge, b1)"
    and "createAtx env b1 sig challenge = Inr atx"
    and "PublishActivationTx env b sig = Some (r, b')"
  shows "\<exists>k tr. trace b' = trace b1 @ publications env atx (Suc k) @ tr"
proof -
  note eq = PublishActivationTx_loop[OF assms(1,2)]
  from eq assms(3) obtain res tr' where
    loop: "broadcast_loop env atx 0 (trace b1) = Some (res, tr')"
    by (cases "broadcast_loop env atx 0 (trace b1)") auto
  from broadcast_loop_Some_trace[OF loop] obtain k where
    tr': "tr' = trace b1 @ publications env atx (Suc k)"
    by auto
  show ?thesis
  proof (cases res)
    case None
    with eq loop assms(3) have "after_broadcast env (b1\<lparr>trace := tr'\<rparr>) sig = (r, b')"
      by simp
    then have "b' = snd (after_broadcast env (b1\<lparr>trace := tr'\<rparr>) sig)"
      by simp
    then have "trace b' = tr' @ EvResetState sig
        # (if ResetState_result env sig = None then [EvRemoveChallenge sig] else [])"
      by (simp add: after_broadcast_trace)
    with tr' show ?thesis
      by (intro exI[of _ k] exI[of _ "EvResetState sig
        # (if ResetState_result env sig = None then [EvRemoveChallenge sig] else [])"]) simp
  next
    case (Some err)
    with eq loop assms(3) have "b' = b1\<lparr>trace := tr'\<rparr>"
      by simp
    with tr' show ?thesis
      by (intro exI[of _ k] exI[of _ "[]"]) simp
  qed
qed

lemma PublishActivationTx_first_success:
  assumes "BuildNIPostChallenge env b sig = (Inr challenge, b1)"
    and "createAtx env b1 sig challenge = Inr atx"
    and "(\<forall>j<k. \<not> attempt_ok env atx j \<and> \<not> broadcast_ctx_done env j) \<and> attempt_ok env atx k"
  shows "\<exists>buf r b'. codec_Encode env atx = Inr buf
              \<and> publisher_Publish env k buf = None
              \<and> PublishActivationTx env b sig = Some (r, b')
              \<and> trace b' = trace b1 @ replicate (Suc k) (EvPublish buf) @ EvResetState sig
                   # (if ResetState_result env sig = None then [EvRemoveChallenge sig] else [])
              \<and> (ResetState_result env sig = None \<and> db_fault env OpRemoveChallenge sig = None \<longrightarrow>
                   r = None \<and> challenge_tbl (localDB b') sig = None)"
proof -
  from assms(3) obtain buf where buf: "codec_Encode env atx = Inr buf"
    and sent: "publisher_Publish env k buf = None"
    by (auto simp: attempt_ok_def split: sum.splits)
  then have pubs: "publications env atx (Suc k) = replicate (Suc k) (EvPublish buf)"
    by (simp add: publications_def)
  from assms(3) have loop: "broadcast_loop env atx 0 (trace b1)
      = Some (None, trace b1 @ replicate (Suc k) (EvPublish buf))"
    using broadcast_loop_ends[of 0 k env atx "trace b1"] pubs by simp
  let ?b2 = "b1\<lparr>trace := trace b1 @ replicate (Suc k) (EvPublish buf)\<rparr>"
  have res: "PublishActivationTx env b sig = Some (after_broadcast env ?b2 sig)"
    unfolding PublishActivationTx_loop[OF assms(1,2)] loop by simp
  have tr: "trace (snd (after_broadcast env ?b2 sig))
      = trace b1 @ replicate (Suc k) (EvPublish buf) @ EvResetState sig
          # (if ResetState_result env sig = None then [EvRemoveChallenge sig] else [])"
    unfolding after_broadcast_trace by simp
  have ok: "ResetState_result env sig = None \<and> db_fault env OpRemoveChallenge sig = None \<longrightarrow>
      fst (after_broadcast env ?b2 sig) = None
      \<and> challenge_tbl (localDB (snd (after_broadcast env ?b2 sig))) sig = None"
    using after_broadcast_ok[of env sig ?b2] by simp
  show ?thesis
    apply (rule exI[of _ buf])
    apply (rule exI[of _ "fst (after_broadcast env ?b2 sig)"])
    apply (rule exI[of _ "snd (after_broadcast env ?b2 sig)"])
    using buf sent res tr ok by simp
qed

lemma PublishActivationTx_never_returns:
  assumes "BuildNIPostChallenge env b sig = (Inr challenge, b1)"
    and "createAtx env b1 sig challenge = Inr atx"
  shows "PublishActivationTx env b sig = None
            \<longleftrightarrow> (\<forall>k. \<not> attempt_ok env atx k \<and> \<not> broadcast_ctx_done env k)"
  using broadcast_loop_None_iff[of env atx 0 "trace b1"]
  unfolding PublishActivationTx_loop[OF assms]
  by (auto split: option.splits prod.splits)

text \<open>
  C4. With the challenge built and the ATX \<open>atx\<close> created, \<open>PublishActivationTx\<close> returns
  if and only if some broadcast attempt succeeds or finds the context done; otherwise the
  loop never ends. Every publication of the loop carries the encoding of the one \<open>atx\<close>.
  If the first attempt that succeeds or finds the context done is attempt \<open>k\<close> and it
  succeeds, the \<open>k + 1\<close> publications are followed by the prover's \<open>ResetState\<close> and, when
  that succeeds, by the removal of the persisted Challenge; if neither fails the result is
  nil and no Challenge is persisted for the identity. If attempt \<open>k\<close> fails and the
  context is done, the result wraps \<open>ctx.Err()\<close> and the builder is as it was after the
  challenge was built, but for the publications in the trace.
\<close>

theorem PublishActivationTx_broadcast:
  assumes "BuildNIPostChallenge env b sig = (Inr challenge, b1)"
    and "createAtx env b1 sig challenge = Inr atx"
  shows "(PublishActivationTx env b sig = None
            \<longleftrightarrow> (\<forall>k. \<not> attempt_ok env atx k \<and> \<not> broadcast_ctx_done env k))
     \<and> (\<forall>k. (\<forall>j<k. \<not> attempt_ok env atx j \<and> \<not> broadcast_ctx_done env j) \<and> attempt_ok env atx k \<longrightarrow>
           (\<exists>buf r b'. codec_Encode env atx = Inr buf
              \<and> PublishActivationTx env b sig = Some (r, b')
              \<and> trace b' = trace b1 @ replicate (Suc k) (EvPublish buf) @ EvResetState sig
                   # (if ResetState_result env sig = None then [EvRemoveChallenge sig] else [])
              \<and> (ResetState_result env sig = None \<and> db_fault env OpRemoveChallenge sig = None \<longrightarrow>
                   r = None \<and> challenge_tbl (localDB b') sig = None)))
     \<and> (\<forall>k. (\<forall>j<k. \<not> attempt_ok env atx j \<and> \<not> broadcast_ctx_done env j)
              \<and> \<not> attempt_ok env atx k \<and> broadcast_ctx_done env k \<longrightarrow>
           PublishActivationTx env b sig
             = Some (Some (Wrapf ''broadcast'' (pub_ctx_Err env)),
                     b1\<lparr>trace := trace b1 @ publications env atx (Suc k)\<rparr>)
           \<and> errors_Is (Wrapf ''broadcast'' (pub_ctx_Err env)) (pub_ctx_Err env))"
proof (intro conjI allI impI)
  show "PublishActivationTx env b sig = None
          \<longleftrightarrow> (\<forall>k. \<not> attempt_ok env atx k \<and> \<not> broadcast_ctx_done env k)"
    using broadcast_loop_None_iff[of env atx 0 "trace b1"]
    unfolding PublishActivationTx_loop[OF assms]
    by (auto split: option.splits prod.splits)
next
  fix k
  assume a: "(\<forall>j<k. \<not> attempt_ok env atx j \<and> \<not> broadcast_ctx_done env j) \<and> attempt_ok env atx k"
  then obtain buf where buf: "codec_Encode env atx = Inr buf"
    by (auto simp: attempt_ok_def split: sum.splits)
  then have pubs: "publications env atx (Suc k) = replicate (Suc k) (EvPublish buf)"
    by (simp add: publications_def)
  from a have loop: "broadcast_loop env atx 0 (trace b1)
      = Some (None, trace b1 @ replicate (Suc k) (EvPublish buf))"
    using broadcast_loop_ends[of 0 k env atx "trace b1"] pubs by simp
  let ?b2 = "b1\<lparr>trace := trace b1 @ replicate (Suc k) (EvPublish buf)\<rparr>"
  have res: "PublishActivationTx env b sig = Some (after_broadcast env ?b2 sig)"
    unfolding PublishActivationTx_loop[OF assms] loop by simp
  have tr: "trace (snd (after_broadcast env ?b2 sig))
      = trace b1 @ replicate (Suc k) (EvPublish buf) @ EvResetState sig
          # (if ResetState_result env sig = None then [EvRemoveChallenge sig] else [])"
    unfolding after_broadcast_trace by simp
  have ok: "ResetState_result env sig = None \<and> db_fault env OpRemoveChallenge sig = None \<longrightarrow>
      fst (after_broadcast env ?b2 sig) = None
      \<and> challenge_tbl (localDB (snd (after_broadcast env ?b2 sig))) sig = None"
    using after_broadcast_ok[of env sig ?b2] by simp
  show "\<exists>buf r b'. codec_Encode env atx = Inr buf
              \<and> PublishActivationTx env b sig = Some (r, b')
              \<and> trace b' = trace b1 @ replicate (Suc k) (EvPublish buf) @ EvResetState sig
                   # (if ResetState_result env sig = None then [EvRemoveChallenge sig] else [])
              \<and> (ResetState_result env sig = None \<and> db_fault env OpRemoveChallenge sig = None \<longrightarrow>
                   r = None \<and> challenge_tbl (localDB b') sig = None)"
    apply (rule exI[of _ buf])
    apply (rule exI[of _ "fst (after_broadcast env ?b2 sig)"])
    apply (rule exI[of _ "snd (after_broadcast env ?b2 sig)"])
    using buf res tr ok by simp
next
  fix k
  assume a: "(\<forall>j<k. \<not> attempt_ok env atx j \<and> \<not> broadcast_ctx_done env j)
              \<and> \<not> attempt_ok env atx k \<and> broadcast_ctx_done env k"
  then have loop: "broadcast_loop env atx 0 (trace b1)
      = Some (Some (Wrapf ''broadcast'' (pub_ctx_Err env)),
              trace b1 @ publications env atx (Suc k))"
    using broadcast_loop_ends[of 0 k env atx "trace b1"] by simp
  show "PublishActivationTx env b sig
             = Some (Some (Wrapf ''broadcast'' (pub_ctx_Err env)),
                     b1\<lparr>trace := trace b1 @ publications env atx (Suc k)\<rparr>)"
    unfolding PublishActivationTx_loop[OF assms] loop by simp
  show "errors_Is (Wrapf ''broadcast'' (pub_ctx_Err env)) (pub_ctx_Err env)"
    by (simp add: errors_Is_refl)
qed

lemma BuildNIPostChallenge_reuse_ch_new:
  "BuildNIPostChallenge env_ok (b_with ch_new) 1 = (Inr ch_new, b_with ch_new)"
  by (simp add: BuildNIPostChallenge_def existing_challenge_def db_Challenge_def Challenge_def
      env_ok_def b_with_def b_idle_def ch_new_def)

theorem PublishActivationTx_broadcast_witness:
  "BuildNIPostChallenge env_ok (b_with ch_new) 1 = (Inr ch_new, b_with ch_new)
   \<and> createAtx env_ok (b_with ch_new) 1 ch_new = Inr atx_regular
   \<and> \<not> attempt_ok env_ok atx_regular 0 \<and> \<not> attempt_ok env_ok atx_regular 1
   \<and> attempt_ok env_ok atx_regular 2
   \<and> (\<exists>b'. PublishActivationTx env_ok (b_with ch_new) 1 = Some (None, b')
         \<and> trace b' = [EvPublish [1, 2, 3], EvPublish [1, 2, 3], EvPublish [1, 2, 3],
                        EvResetState 1, EvRemoveChallenge 1]
         \<and> challenge_tbl (localDB b') 1 = None)"
proof -
  have att: "\<not> attempt_ok env_ok atx_regular 0" "\<not> attempt_ok env_ok atx_regular 1"
    "attempt_ok env_ok atx_regular 2"
    by (simp_all add: attempt_ok_def env_ok_def)
  have first: "(\<forall>j<2. \<not> attempt_ok env_ok atx_regular j \<and> \<not> broadcast_ctx_done env_ok j)
      \<and> attempt_ok env_ok atx_regular 2"
    by (simp add: attempt_ok_def env_ok_def)
  have enc: "codec_Encode env_ok atx_regular = Inr [1, 2, 3]"
    by (simp add: env_ok_def)
  have ok: "ResetState_result env_ok 1 = None \<and> db_fault env_ok OpRemoveChallenge 1 = None"
    by (simp add: env_ok_def)
  have tr0: "trace (b_with ch_new) = []"
    by (simp add: b_with_def b_idle_def)
  from PublishActivationTx_broadcast[OF BuildNIPostChallenge_reuse_ch_new createAtx_regular]
  have "\<forall>k. (\<forall>j<k. \<not> attempt_ok env_ok atx_regular j \<and> \<not> broadcast_ctx_done env_ok j)
            \<and> attempt_ok env_ok atx_regular k \<longrightarrow>
           (\<exists>buf r b'. codec_Encode env_ok atx_regular = Inr buf
              \<and> PublishActivationTx env_ok (b_with ch_new) 1 = Some (r, b')
              \<and> trace b' = trace (b_with ch_new) @ replicate (Suc k) (EvPublish buf) @ EvResetState 1
                   # (if ResetState_result env_ok 1 = None then [EvRemoveChallenge 1] else [])
              \<and> (ResetState_result env_ok 1 = None \<and> db_fault env_ok OpRemoveChallenge 1 = None \<longrightarrow>
                   r = None \<and> challenge_tbl (localDB b') 1 = None))"
    by (elim conjE)
  from this[rule_format, OF first] obtain buf r b' where
    r: "codec_Encode env_ok atx_regular = Inr buf"
      "PublishActivationTx env_ok (b_with ch_new) 1 = Some (r, b')"
      "trace b' = trace (b_with ch_new) @ replicate (Suc 2) (EvPublish buf) @ EvResetState 1
                   # (if ResetState_result env_ok 1 = None then [EvRemoveChallenge 1] else [])"
      "ResetState_result env_ok 1 = None \<and> db_fault env_ok OpRemoveChallenge 1 = None \<longrightarrow>
                   r = None \<and> challenge_tbl (localDB b') 1 = None"
    by (elim exE conjE)
  from r(1) enc have buf: "buf = [1, 2, 3]" by simp
  from r(4) ok have rn: "r = None" and gone: "challenge_tbl (localDB b') 1 = None"
    by simp_all
  from r(3) buf ok tr0 have tr: "trace b' = [EvPublish [1, 2, 3], EvPublish [1, 2, 3],
      EvPublish [1, 2, 3], EvResetState 1, EvRemoveChallenge 1]"
    by (simp add: numeral_2_eq_2)
  from r(2) rn tr gone have "\<exists>b'. PublishActivationTx env_ok (b_with ch_new) 1 = Some (None, b')
         \<and> trace b' = [EvPublish [1, 2, 3], EvPublish [1, 2, 3], EvPublish [1, 2, 3],
                        EvResetState 1, EvRemoveChallenge 1]
         \<and> challenge_tbl (localDB b') 1 = None"
    by (intro exI[of _ b']) simp
  with BuildNIPostChallenge_reuse_ch_new createAtx_regular att show ?thesis
    by (intro conjI)
qed

text \<open>
  C10. For a challenge with a previous ATX whose recorded VRF nonce cannot be read, once
  the NIPost is built and the publication epoch has come in time, \<open>createAtx\<close> returns
  the signed and finalized ATX without a VRF nonce, whatever the fresh nonce is, provided
  signing and finalizing succeed. \<open>PublishActivationTx\<close> then does not return the
  \<open>create ATX\<close> failure but publishes that ATX: it returns unless every broadcast attempt
  fails with the context never done; whenever it returns, the encoding of the ATX has been
  handed to the publisher at least once, right after the calls of the challenge's
  construction; and if the first attempt that succeeds or finds the context done is
  attempt \<open>k\<close> and it succeeds, the publisher accepted that encoding, the trace holds
  \<open>k + 1\<close> publications of it followed by the prover's \<open>ResetState\<close> and, when that
  succeeds, the removal of the persisted Challenge, and the result is nil when neither fails.
\<close>

theorem createAtx_nonce_lookup_failure:
  assumes "BuildNIPostChallenge env b0 sig = (Inr challenge, b)"
    and "PrevATXID challenge \<noteq> EmptyATXID"
    and "atxs_VRFNonce env sig (PublishEpoch challenge) = Inl e"
    and "BuildNIPost_result env sig challenge = Inr st"
    and "publish_epoch_wait env = Fired"
    and "\<not> PublishEpoch challenge < epoch_at_publication env"
    and "SignAndFinalizeAtx env sig
           ((NewActivationTx challenge (coinbaseAccount b) (st_NIPost st) (st_NumUnits st) None)
            \<lparr>atx_NodeID := None\<rparr>) = Inr atx"
  shows "createAtx env b sig challenge = Inr atx
     \<and> atx_VRFNonce atx = None
     \<and> (\<forall>err. PublishActivationTx env b0 sig \<noteq> Some (Some (Wrapf ''create ATX'' err), b))
     \<and> (PublishActivationTx env b0 sig = None
            \<longleftrightarrow> (\<forall>k. \<not> attempt_ok env atx k \<and> \<not> broadcast_ctx_done env k))
     \<and> (\<forall>r b' buf. PublishActivationTx env b0 sig = Some (r, b') \<and> codec_Encode env atx = Inr buf \<longrightarrow>
           (\<exists>k tr. trace b' = trace b @ replicate (Suc k) (EvPublish buf) @ tr))
     \<and> (\<forall>k. (\<forall>j<k. \<not> attempt_ok env atx j \<and> \<not> broadcast_ctx_done env j) \<and> attempt_ok env atx k \<longrightarrow>
           (\<exists>buf r b'. codec_Encode env atx = Inr buf
              \<and> publisher_Publish env k buf = None
              \<and> PublishActivationTx env b0 sig = Some (r, b')
              \<and> trace b' = trace b @ replicate (Suc k) (EvPublish buf) @ EvResetState sig
                   # (if ResetState_result env sig = None then [EvRemoveChallenge sig] else [])
              \<and> (ResetState_result env sig = None \<and> db_fault env OpRemoveChallenge sig = None \<longrightarrow>
                   r = None \<and> challenge_tbl (localDB b') sig = None)))"
proof -
  have n: "atx_nonce env sig challenge st = (None, None)"
    using assms(2,3) by (simp add: atx_nonce_def)
  have c: "createAtx env b sig challenge = Inr atx"
    using assms(4-7) n by (simp add: createAtx_def)
  have v: "atx_VRFNonce atx = None"
    using SignAndFinalizeAtx_fields[OF assms(7)] by (simp add: NewActivationTx_def)
  have nofail: "\<forall>err. PublishActivationTx env b0 sig \<noteq> Some (Some (Wrapf ''create ATX'' err), b)"
  proof (intro allI notI)
    fix err
    assume f: "PublishActivationTx env b0 sig = Some (Some (Wrapf ''create ATX'' err), b)"
    from PublishActivationTx_returned_trace[OF assms(1) c f] obtain k tr where
      "trace b = trace b @ publications env atx (Suc k) @ tr"
      by blast
    then have empty: "publications env atx (Suc k) = []"
      by simp
    then obtain e' where enc: "codec_Encode env atx = Inl e'"
      by (cases "codec_Encode env atx") (simp_all add: publications_def)
    then have never: "\<forall>j. \<not> attempt_ok env atx j"
      by (simp add: attempt_ok_def)
    from f PublishActivationTx_loop[OF assms(1) c] obtain res tr' where
      loop: "broadcast_loop env atx 0 (trace b) = Some (res, tr')"
      by (cases "broadcast_loop env atx 0 (trace b)") auto
    from broadcast_loop_Some_trace[OF loop] never have "res \<noteq> None"
      by auto
    then obtain err' where res: "res = Some err'"
      by auto
    from broadcast_loop_Some_ends[OF loop] never
    have ex: "\<exists>m. 0 \<le> m \<and> (attempt_ok env atx m \<or> broadcast_ctx_done env m)"
      by auto
    define m where "m = (LEAST m. 0 \<le> m \<and> (attempt_ok env atx m \<or> broadcast_ctx_done env m))"
    have m: "0 \<le> m \<and> (attempt_ok env atx m \<or> broadcast_ctx_done env m)"
      unfolding m_def using ex by (rule LeastI_ex)
    have least: "\<forall>j. 0 \<le> j \<and> j < m \<longrightarrow> \<not> attempt_ok env atx j \<and> \<not> broadcast_ctx_done env j"
      unfolding m_def using not_less_Least by blast
    from m have e: "attempt_ok env atx m \<or> broadcast_ctx_done env m"
      by simp
    from broadcast_loop_ends[OF least _ e, of "trace b"] loop never res
    have "err' = Wrapf ''broadcast'' (pub_ctx_Err env)"
      by simp
    with f PublishActivationTx_loop[OF assms(1) c] loop res show False
      by simp
  qed
  note never = PublishActivationTx_never_returns[OF assms(1) c]
  have ret: "\<forall>r b' buf. PublishActivationTx env b0 sig = Some (r, b') \<and> codec_Encode env atx = Inr buf \<longrightarrow>
           (\<exists>k tr. trace b' = trace b @ replicate (Suc k) (EvPublish buf) @ tr)"
  proof (intro allI impI)
    fix r b' buf
    assume a: "PublishActivationTx env b0 sig = Some (r, b') \<and> codec_Encode env atx = Inr buf"
    then have p: "PublishActivationTx env b0 sig = Some (r, b')" and enc: "codec_Encode env atx = Inr buf"
      by simp_all
    from PublishActivationTx_returned_trace[OF assms(1) c p] obtain k tr where
      "trace b' = trace b @ publications env atx (Suc k) @ tr"
      by blast
    with enc have "trace b' = trace b @ replicate (Suc k) (EvPublish buf) @ tr"
      by (simp add: publications_def)
    then show "\<exists>k tr. trace b' = trace b @ replicate (Suc k) (EvPublish buf) @ tr"
      by (intro exI[of _ k] exI[of _ tr])
  qed
  have first: "\<forall>k. (\<forall>j<k. \<not> attempt_ok env atx j \<and> \<not> broadcast_ctx_done env j) \<and> attempt_ok env atx k \<longrightarrow>
           (\<exists>buf r b'. codec_Encode env atx = Inr buf
              \<and> publisher_Publish env k buf = None
              \<and> PublishActivationTx env b0 sig = Some (r, b')
              \<and> trace b' = trace b @ replicate (Suc k) (EvPublish buf) @ EvResetState sig
                   # (if ResetState_result env sig = None then [EvRemoveChallenge sig] else [])
              \<and> (ResetState_result env sig = None \<and> db_fault env OpRemoveChallenge sig = None \<longrightarrow>
                   r = None \<and> challenge_tbl (localDB b') sig = None))"
    using PublishActivationTx_first_success[OF assms(1) c] by (intro allI impI)
  from c v nofail never ret first show ?thesis
    by (intro conjI)
qed

theorem createAtx_nonce_lookup_failure_witness:
  "BuildNIPostChallenge env_no_nonce (b_with ch_new) 1 = (Inr ch_new, b_with ch_new)
   \<and> PrevATXID ch_new \<noteq> EmptyATXID
   \<and> atxs_VRFNonce env_no_nonce 1 (PublishEpoch ch_new) = Inl ErrNotFound
   \<and> st_VRFNonce st_fresh = 9
   \<and> createAtx env_no_nonce (b_with ch_new) 1 ch_new = Inr atx_regular
   \<and> atx_VRFNonce atx_regular = None
   \<and> codec_Encode env_no_nonce atx_regular = Inr [1, 2, 3]
   \<and> \<not> attempt_ok env_no_nonce atx_regular 0 \<and> \<not> attempt_ok env_no_nonce atx_regular 1
   \<and> attempt_ok env_no_nonce atx_regular 2
   \<and> (\<exists>b'. PublishActivationTx env_no_nonce (b_with ch_new) 1 = Some (None, b')
         \<and> trace b' = [EvPublish [1, 2, 3], EvPublish [1, 2, 3], EvPublish [1, 2, 3],
                        EvResetState 1, EvRemoveChallenge 1]
         \<and> challenge_tbl (localDB b') 1 = None)"
proof -
  have h1: "BuildNIPostChallenge env_no_nonce (b_with ch_new) 1 = (Inr ch_new, b_with ch_new)"
    by (simp add: BuildNIPostChallenge_def existing_challenge_def db_Challenge_def Challenge_def
        env_no_nonce_def env_ok_def b_with_def b_idle_def ch_new_def)
  have h2: "PrevATXID ch_new \<noteq> EmptyATXID"
    by (simp add: ch_new_def EmptyATXID_def)
  have h3: "atxs_VRFNonce env_no_nonce 1 (PublishEpoch ch_new) = Inl ErrNotFound"
    by (simp add: env_no_nonce_def)
  have h4: "BuildNIPost_result env_no_nonce 1 ch_new = Inr st_fresh"
    by (simp add: env_no_nonce_def env_ok_def)
  have h5: "publish_epoch_wait env_no_nonce = Fired"
    by (simp add: env_no_nonce_def env_ok_def)
  have h6: "\<not> PublishEpoch ch_new < epoch_at_publication env_no_nonce"
    by (simp add: env_no_nonce_def env_ok_def ch_new_def)
  have h7: "SignAndFinalizeAtx env_no_nonce 1
           ((NewActivationTx ch_new (coinbaseAccount (b_with ch_new)) (st_NIPost st_fresh)
               (st_NumUnits st_fresh) None)
            \<lparr>atx_NodeID := None\<rparr>) = Inr atx_regular"
    by (simp add: SignAndFinalizeAtx_def NewActivationTx_def env_no_nonce_def env_ok_def b_with_def
        b_idle_def st_fresh_def atx_regular_def)
  have fresh: "st_VRFNonce st_fresh = 9"
    by (simp add: st_fresh_def)
  have enc: "codec_Encode env_no_nonce atx_regular = Inr [1, 2, 3]"
    by (simp add: env_no_nonce_def env_ok_def)
  have att: "\<not> attempt_ok env_no_nonce atx_regular 0" "\<not> attempt_ok env_no_nonce atx_regular 1"
    "attempt_ok env_no_nonce atx_regular 2"
    by (simp_all add: attempt_ok_def env_no_nonce_def env_ok_def)
  have first: "(\<forall>j<2. \<not> attempt_ok env_no_nonce atx_regular j \<and> \<not> broadcast_ctx_done env_no_nonce j)
      \<and> attempt_ok env_no_nonce atx_regular 2"
    by (simp add: attempt_ok_def env_no_nonce_def env_ok_def)
  have ok: "ResetState_result env_no_nonce 1 = None \<and> db_fault env_no_nonce OpRemoveChallenge 1 = None"
    by (simp add: env_no_nonce_def env_ok_def)
  have tr0: "trace (b_with ch_new) = []"
    by (simp add: b_with_def b_idle_def)
  note r = createAtx_nonce_lookup_failure[OF h1 h2 h3 h4 h5 h6 h7]
  from r have c: "createAtx env_no_nonce (b_with ch_new) 1 ch_new = Inr atx_regular"
    by (rule conjunct1)
  from r have v: "atx_VRFNonce atx_regular = None"
    by (elim conjE)
  from r have "\<forall>k. (\<forall>j<k. \<not> attempt_ok env_no_nonce atx_regular j \<and> \<not> broadcast_ctx_done env_no_nonce j)
            \<and> attempt_ok env_no_nonce atx_regular k \<longrightarrow>
           (\<exists>buf r b'. codec_Encode env_no_nonce atx_regular = Inr buf
              \<and> publisher_Publish env_no_nonce k buf = None
              \<and> PublishActivationTx env_no_nonce (b_with ch_new) 1 = Some (r, b')
              \<and> trace b' = trace (b_with ch_new) @ replicate (Suc k) (EvPublish buf) @ EvResetState 1
                   # (if ResetState_result env_no_nonce 1 = None then [EvRemoveChallenge 1] else [])
              \<and> (ResetState_result env_no_nonce 1 = None \<and> db_fault env_no_nonce OpRemoveChallenge 1 = None \<longrightarrow>
                   r = None \<and> challenge_tbl (localDB b') 1 = None))"
    by (elim conjE)
  from this[rule_format, OF first] obtain buf res b' where
    p: "codec_Encode env_no_nonce atx_regular = Inr buf"
      "PublishActivationTx env_no_nonce (b_with ch_new) 1 = Some (res, b')"
      "trace b' = trace (b_with ch_new) @ replicate (Suc 2) (EvPublish buf) @ EvResetState 1
                   # (if ResetState_result env_no_nonce 1 = None then [EvRemoveChallenge 1] else [])"
      "ResetState_result env_no_nonce 1 = None \<and> db_fault env_no_nonce OpRemoveChallenge 1 = None \<longrightarrow>
                   res = None \<and> challenge_tbl (localDB b') 1 = None"
    by (elim exE conjE)
  from p(1) enc have buf: "buf = [1, 2, 3]" by simp
  from p(4) ok have rn: "res = None" and gone: "challenge_tbl (localDB b') 1 = None"
    by simp_all
  from p(3) buf ok tr0 have tr: "trace b' = [EvPublish [1, 2, 3], EvPublish [1, 2, 3],
      EvPublish [1, 2, 3], EvResetState 1, EvRemoveChallenge 1]"
    by (simp add: numeral_2_eq_2)
  from p(2) rn tr gone have pub: "\<exists>b'. PublishActivationTx env_no_nonce (b_with ch_new) 1 = Some (None, b')
         \<and> trace b' = [EvPublish [1, 2, 3], EvPublish [1, 2, 3], EvPublish [1, 2, 3],
                        EvResetState 1, EvRemoveChallenge 1]
         \<and> challenge_tbl (localDB b') 1 = None"
    by (intro exI[of _ b']) simp
  from h1 h2 h3 fresh c v enc att pub show ?thesis
    by (intro conjI)
qed


section \<open>Reuse and replacement of the persisted Challenge\<close>

lemma time_Until_nonpos: "time_Until now t \<le> 0 \<longleftrightarrow> t \<le> now"
  by (auto simp: time_Until_def time_Sub_def minDuration_def maxDuration_def)

lemma time_Until_pos: "0 < time_Until now t \<longleftrightarrow> now < t"
  by (auto simp: time_Until_def time_Sub_def minDuration_def maxDuration_def)

lemma epoch_Suc_greater: "(x::32 word) < 0xFFFFFFFF \<Longrightarrow> x < x + 1"
  by (simp add: word_less_nat_alt unat_word_ariths)

lemma epoch_Suc_below: "(x::32 word) < 0xFFFFFFFE \<Longrightarrow> x + 1 < 0xFFFFFFFF"
  by (simp add: word_less_nat_alt unat_word_ariths)

subsection \<open>What each stage of BuildNIPostChallenge leaves unchanged\<close>

lemma findFullyValidHighTickAtx_trace:
  "\<exists>tr'. snd (snd (findFullyValidHighTickAtx env p g R i tr)) = tr @ tr'"
proof (induction env p g R i tr rule: findFullyValidHighTickAtx.induct)
  case (1 env p g R i tr)
  show ?case
  proof (cases "positioning_ctx_done env i")
    case True
    then show ?thesis
      by (subst findFullyValidHighTickAtx.simps) simp
  next
    case False
    show ?thesis
    proof (cases "GetIDWithMaxHeight (atx_store env) p (\<lambda>a. a \<notin> R)")
      case (Inl err)
      with False show ?thesis
        by (subst findFullyValidHighTickAtx.simps) simp
    next
      case (Inr cand)
      show ?thesis
      proof (cases "validator_VerifyChain env cand g")
        case None
        with False Inr show ?thesis
          by (subst findFullyValidHighTickAtx.simps) simp
      next
        case (Some verr)
        from "1.IH"[OF False Inr Some] obtain tr' where
          "snd (snd (findFullyValidHighTickAtx env p g (insert cand R) (Suc i) (tr @ [EvVerifyChain cand])))
             = (tr @ [EvVerifyChain cand]) @ tr'"
          by blast
        with False Inr Some show ?thesis
          by (subst findFullyValidHighTickAtx.simps) simp
      qed
    qed
  qed
qed

lemma getPositioningAtx_frame:
  assumes "getPositioningAtx env b nodeID = (r, b1)"
  shows "postStates b1 = postStates b \<and> localDB b1 = localDB b \<and> conf b1 = conf b
     \<and> poetCfg b1 = poetCfg b \<and> (\<exists>tr. trace b1 = trace b @ tr)"
proof -
  obtain r0 rej tr0 where f: "findFullyValidHighTickAtx env nodeID (GoldenATXID (conf b)) {} 0 (trace b)
      = (r0, rej, tr0)"
    by (cases "findFullyValidHighTickAtx env nodeID (GoldenATXID (conf b)) {} 0 (trace b)") auto
  from findFullyValidHighTickAtx_trace[of env nodeID "GoldenATXID (conf b)" "{}" 0 "trace b"] f
  obtain tr where tr: "tr0 = trace b @ tr" by auto
  from assms f have "b1 = b\<lparr>trace := tr0\<rparr>"
    by (auto simp: getPositioningAtx_def split: sum.splits if_splits)
  with tr show ?thesis by simp
qed

lemma wait_for_round_frame:
  assumes "wait_for_round env b target = (r, b1)"
  shows "postStates b1 = postStates b \<and> localDB b1 = localDB b \<and> conf b1 = conf b
     \<and> poetCfg b1 = poetCfg b \<and> (\<exists>tr. trace b1 = trace b @ tr)"
  using assms
  by (auto simp: wait_for_round_def Let_def split: if_splits select_result.splits)

lemma new_challenge_frame:
  assumes "new_challenge env b nodeID target posAtx = (r, b1)"
  shows "postStates b1 = postStates b \<and> challenge_tbl (localDB b1) = challenge_tbl (localDB b)
     \<and> trace b1 = trace b"
  using assms
  by (auto simp: new_challenge_def db_RemoveInitialPost_def RemoveInitialPost_def
      split: sum.splits if_splits option.splits prod.splits)

lemma new_challenge_Inr:
  assumes "new_challenge env b nodeID target posAtx = (Inr ch, b1)"
  shows "PublishEpoch ch = target + 1 \<and> PositioningATX ch = posAtx"
  using assms
  by (auto simp: new_challenge_def split: sum.splits if_splits option.splits prod.splits)

lemma db_AddChallenge_frame:
  assumes "db_AddChallenge env b nodeID ch = (r, b1)"
  shows "postStates b1 = postStates b \<and> trace b1 = trace b
     \<and> (r = None \<longrightarrow> Challenge (localDB b1) nodeID = Inr ch)"
proof (cases "db_fault env OpAddChallenge nodeID")
  case (Some err)
  with assms have "(Some err, b) = (r, b1)"
    by (simp add: db_AddChallenge_def)
  then have "r = Some err" "b1 = b"
    by auto
  then show ?thesis
    by simp
next
  case None
  show ?thesis
  proof (cases "challenge_tbl (localDB b) nodeID")
    case (Some old)
    then have "fst (AddChallenge (localDB b) nodeID ch) \<noteq> None"
      "snd (AddChallenge (localDB b) nodeID ch) = localDB b"
      by (simp_all add: AddChallenge_def)
    with assms None have "r \<noteq> None" "postStates b1 = postStates b" "trace b1 = trace b"
      by (auto simp: db_AddChallenge_def split: prod.splits)
    then show ?thesis
      by auto
  next
    case free: None
    then have "AddChallenge (localDB b) nodeID ch
        = (None, (localDB b)\<lparr>challenge_tbl := (challenge_tbl (localDB b))(nodeID \<mapsto> ch)\<rparr>)"
      by (simp add: AddChallenge_def)
    with assms None have "b1 = b\<lparr>localDB := (localDB b)\<lparr>challenge_tbl := (challenge_tbl (localDB b))(nodeID \<mapsto> ch)\<rparr>\<rparr>"
      by (auto simp: db_AddChallenge_def)
    then show ?thesis
      by (simp add: Challenge_def)
  qed
qed

lemma late_round_cfg:
  "poetCfg b1 = poetCfg b \<Longrightarrow> late_round env b1 current = late_round env b current"
  by (simp add: late_round_def poetRoundStart_def)

lemma target_epoch_cfg:
  "poetCfg b1 = poetCfg b \<Longrightarrow> target_epoch env b1 nodeID current = target_epoch env b nodeID current"
  using late_round_cfg[of b1 b env]
  by (simp add: target_epoch_def split: sum.splits)

lemma late_round_eq:
  "late_round env b e = (if poetRoundStart env b e \<le> now_round_check env then e + 1 else e)"
  by (simp add: late_round_def time_Until_nonpos)

lemma target_epoch_Inr:
  assumes "target_epoch env b nodeID (current_epoch env) = Inr target"
  shows "target = (if poetRoundStart env b (base_epoch env nodeID) \<le> now_round_check env
                   then base_epoch env nodeID + 1 else base_epoch env nodeID)"
proof (cases "GetLastAtx_target env nodeID")
  case (Inl err)
  with assms have "target = late_round env b (current_epoch env)"
    by (simp add: target_epoch_def split: if_splits)
  with Inl show ?thesis
    by (simp add: late_round_eq base_epoch_def)
next
  case (Inr prev)
  with assms have "target = late_round env b (max (current_epoch env) (hdr_PublishEpoch prev))"
    by (simp add: target_epoch_def)
  with Inr show ?thesis
    by (simp add: late_round_eq base_epoch_def)
qed

lemma build_fresh_frame:
  assumes "build_fresh env b nodeID current = (r, b')"
  shows "postStates b' = postStates b \<and> (\<exists>tr. trace b' = trace b @ tr)"
proof (cases "target_epoch env b nodeID current")
  case (Inl err)
  with assms show ?thesis by (simp add: build_fresh_def)
next
  case (Inr target)
  obtain w b1 where w: "wait_for_round env b target = (w, b1)"
    by (cases "wait_for_round env b target") auto
  note f1 = wait_for_round_frame[OF w]
  show ?thesis
  proof (cases w)
    case (Some err)
    with assms Inr w f1 show ?thesis by (simp add: build_fresh_def)
  next
    case None
    obtain p b2 where p: "getPositioningAtx env b1 nodeID = (p, b2)"
      by (cases "getPositioningAtx env b1 nodeID") auto
    note f2 = getPositioningAtx_frame[OF p]
    from f1 f2 have f12: "postStates b2 = postStates b \<and> (\<exists>tr. trace b2 = trace b @ tr)"
      by auto
    show ?thesis
    proof (cases p)
      case (Inl err)
      with assms Inr w None p f12 show ?thesis by (simp add: build_fresh_def)
    next
      case (Inr posAtx)
      obtain c b3 where c: "new_challenge env b2 nodeID target posAtx = (c, b3)"
        by (cases "new_challenge env b2 nodeID target posAtx") auto
      note f3 = new_challenge_frame[OF c]
      from f12 f3 have f123: "postStates b3 = postStates b \<and> (\<exists>tr. trace b3 = trace b @ tr)"
        by auto
      show ?thesis
      proof (cases c)
        case (Inl err)
        with assms \<open>target_epoch env b nodeID current = Inr target\<close> w None p Inr c f123
        show ?thesis by (simp add: build_fresh_def)
      next
        case (Inr ch)
        obtain a b4 where a: "db_AddChallenge env b3 nodeID ch = (a, b4)"
          by (cases "db_AddChallenge env b3 nodeID ch") auto
        note f4 = db_AddChallenge_frame[OF a]
        from f123 f4 have f1234: "postStates b4 = postStates b \<and> (\<exists>tr. trace b4 = trace b @ tr)"
          by auto
        from assms \<open>target_epoch env b nodeID current = Inr target\<close> w None p
          \<open>p = Inr posAtx\<close> c Inr a
        have "b' = b4"
          by (cases a) (simp_all add: build_fresh_def)
        with f1234 show ?thesis by simp
      qed
    qed
  qed
qed

lemma build_fresh_Inr:
  assumes "build_fresh env b nodeID current = (Inr ch, b')"
  shows "\<exists>target. target_epoch env b nodeID current = Inr target
     \<and> PublishEpoch ch = target + 1 \<and> Challenge (localDB b') nodeID = Inr ch"
proof -
  from assms obtain target where t: "target_epoch env b nodeID current = Inr target"
    by (cases "target_epoch env b nodeID current") (simp_all add: build_fresh_def)
  obtain w b1 where w: "wait_for_round env b target = (w, b1)"
    by (cases "wait_for_round env b target") auto
  with assms t have wn: "w = None"
    by (cases w) (simp_all add: build_fresh_def)
  obtain p b2 where p: "getPositioningAtx env b1 nodeID = (p, b2)"
    by (cases "getPositioningAtx env b1 nodeID") auto
  with assms t w wn obtain posAtx where pa: "p = Inr posAtx"
    by (cases p) (simp_all add: build_fresh_def)
  obtain c b3 where c: "new_challenge env b2 nodeID target posAtx = (c, b3)"
    by (cases "new_challenge env b2 nodeID target posAtx") auto
  with assms t w wn p pa obtain ch0 where c0: "c = Inr ch0"
    by (cases c) (simp_all add: build_fresh_def)
  obtain a b4 where a: "db_AddChallenge env b3 nodeID ch0 = (a, b4)"
    by (cases "db_AddChallenge env b3 nodeID ch0") auto
  with assms t w wn p pa c c0 have r: "a = None \<and> ch0 = ch \<and> b4 = b'"
    by (cases a) (simp_all add: build_fresh_def)
  from new_challenge_Inr[of env b2 nodeID target posAtx ch0 b3] c c0
  have pe: "PublishEpoch ch0 = target + 1" by simp
  from db_AddChallenge_frame[OF a] r have "Challenge (localDB b') nodeID = Inr ch"
    by simp
  with t pe r show ?thesis by simp
qed

lemma existing_challenge_reuse:
  assumes "db_Challenge env b nodeID = Inr ch" and "\<not> PublishEpoch ch < current"
  shows "existing_challenge env b nodeID current = (Some (Inr ch), b)"
  using assms by (simp add: existing_challenge_def)

lemma existing_challenge_stale:
  assumes "db_Challenge env b nodeID = Inr ch" and "PublishEpoch ch < current"
  shows "existing_challenge env b nodeID current =
           (case ResetState_result env nodeID of
              Some err \<Rightarrow>
                (Some (Inl (Wrapf ''reset nipost builder state'' err)),
                 b\<lparr>postStates := (postStates b)(nodeID \<mapsto> PostStateIdle),
                   trace := trace b @ [EvResetState nodeID]\<rparr>)
            | None \<Rightarrow>
                (case db_fault env OpRemoveChallenge nodeID of
                   Some err \<Rightarrow>
                     (Some (Inl (Wrapf ''remove stale nipost challenge'' err)),
                      b\<lparr>postStates := (postStates b)(nodeID \<mapsto> PostStateIdle),
                        trace := trace b @ [EvResetState nodeID, EvRemoveChallenge nodeID]\<rparr>)
                 | None \<Rightarrow> (None, discard_stale b nodeID)))"
  using assms
  by (simp add: existing_challenge_def nipostBuilder_ResetState_def db_RemoveChallenge_def
      RemoveChallenge_def discard_stale_def split: option.splits)

lemma existing_challenge_stale_effects:
  assumes "db_Challenge env b nodeID = Inr ch" and "PublishEpoch ch < current"
  shows "postStates (snd (existing_challenge env b nodeID current)) nodeID = Some PostStateIdle"
    and "\<exists>tr. trace (snd (existing_challenge env b nodeID current)) = trace b @ EvResetState nodeID # tr"
    and "fst (existing_challenge env b nodeID current) = None \<longleftrightarrow>
           ResetState_result env nodeID = None \<and> db_fault env OpRemoveChallenge nodeID = None"
    and "fst (existing_challenge env b nodeID current) = None \<Longrightarrow>
           snd (existing_challenge env b nodeID current) = discard_stale b nodeID"
  unfolding existing_challenge_stale[OF assms]
  by (simp_all add: discard_stale_def split: option.splits)

lemma existing_challenge_cfg:
  "poetCfg (snd (existing_challenge env b nodeID current)) = poetCfg b"
  by (simp add: existing_challenge_def nipostBuilder_ResetState_def db_RemoveChallenge_def
      RemoveChallenge_def split: sum.splits option.splits prod.splits)

lemma BuildNIPostChallenge_fresh:
  assumes "sync_wait env = Fired"
    and "fst (existing_challenge env b nodeID (current_epoch env)) = None"
  shows "BuildNIPostChallenge env b nodeID
           = build_fresh env (snd (existing_challenge env b nodeID (current_epoch env))) nodeID
               (current_epoch env)"
  using assms
  by (cases "existing_challenge env b nodeID (current_epoch env)")
     (simp add: BuildNIPostChallenge_def)

text \<open>
  C5. When \<open>BuildNIPostChallenge\<close> builds a new challenge (it reuses none) and returns
  it, the target epoch is chosen from \<open>base_epoch\<close>, the greater of the current epoch and
  the publish epoch of the identity's last ATX (the current epoch when it has none): it
  is the epoch after the base when the poet round of the base does not start later than
  now, the base otherwise; and the challenge's publish epoch is the target plus one
  (in 32-bit arithmetic, as the source computes it).
\<close>

theorem BuildNIPostChallenge_target_epoch:
  assumes "sync_wait env = Fired"
    and "fst (existing_challenge env b nodeID (current_epoch env)) = None"
    and "BuildNIPostChallenge env b nodeID = (Inr challenge, b')"
  shows "base_epoch env nodeID =
           (case GetLastAtx_target env nodeID of
              Inr prev \<Rightarrow> max (current_epoch env) (hdr_PublishEpoch prev)
            | Inl err \<Rightarrow> current_epoch env)
     \<and> target_epoch env b nodeID (current_epoch env) =
           Inr (if poetRoundStart env b (base_epoch env nodeID) \<le> now_round_check env
                then base_epoch env nodeID + 1 else base_epoch env nodeID)
     \<and> PublishEpoch challenge =
           (if poetRoundStart env b (base_epoch env nodeID) \<le> now_round_check env
            then base_epoch env nodeID + 1 else base_epoch env nodeID) + 1"
proof -
  let ?b1 = "snd (existing_challenge env b nodeID (current_epoch env))"
  have fresh: "build_fresh env ?b1 nodeID (current_epoch env) = (Inr challenge, b')"
    using BuildNIPostChallenge_fresh[OF assms(1,2)] assms(3) by simp
  from build_fresh_Inr[OF fresh] obtain target where
    t1: "target_epoch env ?b1 nodeID (current_epoch env) = Inr target"
    and pe: "PublishEpoch challenge = target + 1"
    by blast
  have t: "target_epoch env b nodeID (current_epoch env) = Inr target"
    using t1 target_epoch_cfg[of ?b1 b env nodeID "current_epoch env"] existing_challenge_cfg[of env b nodeID "current_epoch env"]
    by simp
  note eq = target_epoch_Inr[OF t]
  have base: "base_epoch env nodeID =
           (case GetLastAtx_target env nodeID of
              Inr prev \<Rightarrow> max (current_epoch env) (hdr_PublishEpoch prev)
            | Inl err \<Rightarrow> current_epoch env)"
    by (simp add: base_epoch_def)
  from t eq have t': "target_epoch env b nodeID (current_epoch env) =
           Inr (if poetRoundStart env b (base_epoch env nodeID) \<le> now_round_check env
                then base_epoch env nodeID + 1 else base_epoch env nodeID)"
    by simp
  from pe eq have pe': "PublishEpoch challenge =
           (if poetRoundStart env b (base_epoch env nodeID) \<le> now_round_check env
            then base_epoch env nodeID + 1 else base_epoch env nodeID) + 1"
    by simp
  from base t' pe' show ?thesis
    by (intro conjI)
qed

lemma scenario_existing:
  "existing_challenge env_ok (b_with ch_old) 1 (current_epoch env_ok)
     = (None, discard_stale (b_with ch_old) 1)"
proof -
  have c: "db_Challenge env_ok (b_with ch_old) 1 = Inr ch_old"
    by (simp add: db_Challenge_def Challenge_def env_ok_def b_with_def)
  have s: "PublishEpoch ch_old < current_epoch env_ok"
    by (simp add: ch_old_def env_ok_def)
  show ?thesis
    unfolding existing_challenge_stale[OF c s]
    by (simp add: env_ok_def)
qed

lemma scenario_target:
  "target_epoch env_ok (discard_stale (b_with ch_old) 1) 1 (current_epoch env_ok) = Inr 7"
  by (simp add: target_epoch_def late_round_eq poetRoundStart_def env_ok_def hdr_last_def
      discard_stale_def b_with_def b_idle_def)

lemma scenario_wait:
  "wait_for_round env_ok (discard_stale (b_with ch_old) 1) 7
     = (None, (discard_stale (b_with ch_old) 1)
                \<lparr>trace := [EvResetState 1, EvRemoveChallenge 1, EvPoetWaitRound 7 8 70400]\<rparr>)"
  by (simp add: wait_for_round_def buildNipostChallengeStartDeadline_def randomDurationInRange_def
      maxNipostChallengeBuildJitter_def poetRoundStart_def time_Until_pos env_ok_def
      discard_stale_def b_with_def b_idle_def)

lemma scenario_select:
  "findFullyValidHighTickAtx env_ok 1 1000 {} 0 tr
     = (Inr 22, {21}, tr @ [EvVerifyChain 21, EvVerifyChain 22])"
proof -
  have st: "atx_store env_ok = [(23, 10), (21, 30), (22, 20)]"
    by (simp add: env_ok_def)
  have v: "validator_VerifyChain env_ok 21 1000 = Some (ErrorsNew ''invalid chain'')"
    "validator_VerifyChain env_ok 22 1000 = None"
    by (simp_all add: env_ok_def)
  have d: "\<not> positioning_ctx_done env_ok 0" "\<not> positioning_ctx_done env_ok (Suc 0)"
    by (simp_all add: env_ok_def)
  have step1: "findFullyValidHighTickAtx env_ok 1 1000 {21} (Suc 0) (tr @ [EvVerifyChain 21])
      = (Inr 22, {21}, tr @ [EvVerifyChain 21, EvVerifyChain 22])"
    by (subst findFullyValidHighTickAtx.simps) (simp add: GetIDWithMaxHeight_def st v d)
  show ?thesis
    by (subst findFullyValidHighTickAtx.simps) (simp add: GetIDWithMaxHeight_def st v d step1)
qed

lemma scenario_positioning:
  "conf b = conf b_idle \<Longrightarrow>
     getPositioningAtx env_ok b 1 = (Inr 22, b\<lparr>trace := trace b @ [EvVerifyChain 21, EvVerifyChain 22]\<rparr>)"
  by (simp add: getPositioningAtx_def b_idle_def scenario_select)

lemma scenario_new_challenge:
  "new_challenge env_ok b 1 7 22 = (Inr ch_new, b)"
  by (simp add: new_challenge_def env_ok_def hdr_last_def ch_new_def)

lemma BuildNIPostChallenge_stale_scenario:
  "BuildNIPostChallenge env_ok (b_with ch_old) 1 = (Inr ch_new, b_rebuilt)"
proof -
  have sync: "sync_wait env_ok = Fired"
    by (simp add: env_ok_def)
  have pos: "getPositioningAtx env_ok ((discard_stale (b_with ch_old) 1)
                \<lparr>trace := [EvResetState 1, EvRemoveChallenge 1, EvPoetWaitRound 7 8 70400]\<rparr>) 1
     = (Inr 22, (discard_stale (b_with ch_old) 1)
                \<lparr>trace := [EvResetState 1, EvRemoveChallenge 1, EvPoetWaitRound 7 8 70400,
                            EvVerifyChain 21, EvVerifyChain 22]\<rparr>)"
    by (subst scenario_positioning) (simp_all add: discard_stale_def b_with_def)
  have add: "db_AddChallenge env_ok ((discard_stale (b_with ch_old) 1)
                \<lparr>trace := [EvResetState 1, EvRemoveChallenge 1, EvPoetWaitRound 7 8 70400,
                            EvVerifyChain 21, EvVerifyChain 22]\<rparr>) 1 ch_new = (None, b_rebuilt)"
    by (simp add: db_AddChallenge_def AddChallenge_def RemoveChallenge_def env_ok_def
        discard_stale_def b_with_def b_rebuilt_def b_idle_def)
  have fresh: "build_fresh env_ok (discard_stale (b_with ch_old) 1) 1 (current_epoch env_ok)
      = (Inr ch_new, b_rebuilt)"
    by (simp add: build_fresh_def scenario_target scenario_wait pos scenario_new_challenge add)
  show ?thesis
    by (simp add: BuildNIPostChallenge_def sync scenario_existing fresh)
qed

lemma wrap_existing:
  "existing_challenge env_wrap (b_with ch_old) 1 (current_epoch env_wrap)
     = (None, discard_stale (b_with ch_old) 1)"
proof -
  have c: "db_Challenge env_wrap (b_with ch_old) 1 = Inr ch_old"
    by (simp add: db_Challenge_def Challenge_def env_wrap_def env_ok_def b_with_def)
  have s: "PublishEpoch ch_old < current_epoch env_wrap"
    by (simp add: ch_old_def env_wrap_def env_ok_def)
  show ?thesis
    unfolding existing_challenge_stale[OF c s]
    by (simp add: env_wrap_def env_ok_def)
qed

lemma wrap_target:
  "target_epoch env_wrap (discard_stale (b_with ch_old) 1) 1 (current_epoch env_wrap) = Inr 0xFFFFFFFF"
  by (simp add: target_epoch_def late_round_eq poetRoundStart_def env_wrap_def env_ok_def hdr_last_def
      discard_stale_def b_with_def b_idle_def)

lemma wrap_wait:
  "wait_for_round env_wrap (discard_stale (b_with ch_old) 1) 0xFFFFFFFF
     = (None, (discard_stale (b_with ch_old) 1)
                \<lparr>trace := [EvResetState 1, EvRemoveChallenge 1,
                            EvPoetWaitRound 0xFFFFFFFF 0 4294967286400]\<rparr>)"
  by (simp add: wait_for_round_def buildNipostChallengeStartDeadline_def randomDurationInRange_def
      maxNipostChallengeBuildJitter_def poetRoundStart_def time_Until_pos env_wrap_def env_ok_def
      discard_stale_def b_with_def b_idle_def)

lemma wrap_select:
  "findFullyValidHighTickAtx env_wrap 1 1000 {} 0 tr
     = (Inr 22, {21}, tr @ [EvVerifyChain 21, EvVerifyChain 22])"
proof -
  have st: "atx_store env_wrap = [(23, 10), (21, 30), (22, 20)]"
    by (simp add: env_wrap_def env_ok_def)
  have v: "validator_VerifyChain env_wrap 21 1000 = Some (ErrorsNew ''invalid chain'')"
    "validator_VerifyChain env_wrap 22 1000 = None"
    by (simp_all add: env_wrap_def env_ok_def)
  have d: "\<not> positioning_ctx_done env_wrap 0" "\<not> positioning_ctx_done env_wrap (Suc 0)"
    by (simp_all add: env_wrap_def env_ok_def)
  have step1: "findFullyValidHighTickAtx env_wrap 1 1000 {21} (Suc 0) (tr @ [EvVerifyChain 21])
      = (Inr 22, {21}, tr @ [EvVerifyChain 21, EvVerifyChain 22])"
    by (subst findFullyValidHighTickAtx.simps) (simp add: GetIDWithMaxHeight_def st v d)
  show ?thesis
    by (subst findFullyValidHighTickAtx.simps) (simp add: GetIDWithMaxHeight_def st v d step1)
qed

lemma wrap_positioning:
  "conf b = conf b_idle \<Longrightarrow>
     getPositioningAtx env_wrap b 1 = (Inr 22, b\<lparr>trace := trace b @ [EvVerifyChain 21, EvVerifyChain 22]\<rparr>)"
  by (simp add: getPositioningAtx_def b_idle_def wrap_select)

lemma wrap_new_challenge:
  "new_challenge env_wrap b 1 0xFFFFFFFF 22 = (Inr ch_wrapped, b)"
  by (simp add: new_challenge_def env_wrap_def env_ok_def hdr_last_def ch_wrapped_def)

lemma BuildNIPostChallenge_wrap_scenario:
  "BuildNIPostChallenge env_wrap (b_with ch_old) 1 = (Inr ch_wrapped, b_wrapped)"
proof -
  have sync: "sync_wait env_wrap = Fired"
    by (simp add: env_wrap_def env_ok_def)
  have pos: "getPositioningAtx env_wrap ((discard_stale (b_with ch_old) 1)
                \<lparr>trace := [EvResetState 1, EvRemoveChallenge 1,
                            EvPoetWaitRound 0xFFFFFFFF 0 4294967286400]\<rparr>) 1
     = (Inr 22, (discard_stale (b_with ch_old) 1)
                \<lparr>trace := [EvResetState 1, EvRemoveChallenge 1,
                            EvPoetWaitRound 0xFFFFFFFF 0 4294967286400,
                            EvVerifyChain 21, EvVerifyChain 22]\<rparr>)"
    by (subst wrap_positioning) (simp_all add: discard_stale_def b_with_def)
  have add: "db_AddChallenge env_wrap ((discard_stale (b_with ch_old) 1)
                \<lparr>trace := [EvResetState 1, EvRemoveChallenge 1,
                            EvPoetWaitRound 0xFFFFFFFF 0 4294967286400,
                            EvVerifyChain 21, EvVerifyChain 22]\<rparr>) 1 ch_wrapped = (None, b_wrapped)"
    by (simp add: db_AddChallenge_def AddChallenge_def RemoveChallenge_def env_wrap_def env_ok_def
        discard_stale_def b_with_def b_wrapped_def b_idle_def)
  have fresh: "build_fresh env_wrap (discard_stale (b_with ch_old) 1) 1 (current_epoch env_wrap)
      = (Inr ch_wrapped, b_wrapped)"
    by (simp add: build_fresh_def wrap_target wrap_wait pos wrap_new_challenge add)
  show ?thesis
    by (simp add: BuildNIPostChallenge_def sync wrap_existing fresh)
qed

lemma base_epoch_ge: "current_epoch env \<le> base_epoch env nodeID"
  by (simp add: base_epoch_def split: sum.splits)

lemma publish_epoch_later:
  assumes "base < (0xFFFFFFFE :: 32 word)" and "current \<le> base"
  shows "current < (if late then base + 1 else base) + 1"
proof (cases late)
  case True
  from assms(1) have "base < 0xFFFFFFFF"
    by (simp add: word_less_nat_alt)
  from epoch_Suc_greater[OF this] epoch_Suc_greater[OF epoch_Suc_below[OF assms(1)]]
  have "base < base + 1 + 1" by simp
  with assms(2) True show ?thesis by simp
next
  case False
  from assms(1) have "base < 0xFFFFFFFF"
    by (simp add: word_less_nat_alt)
  from epoch_Suc_greater[OF this] assms(2) False show ?thesis by simp
qed

lemma publish_epoch_no_wrap:
  assumes "base \<le> target" and "target < (0xFFFFFFFF :: 32 word)" and "current \<le> base"
  shows "current < target + 1"
proof -
  from epoch_Suc_greater[OF assms(2)] have "target < target + 1" .
  with assms(1,3) show ?thesis by simp
qed


text \<open>
  C1, as the code has it. Let a Challenge \<open>ch\<close> be persisted for the identity and the
  wait for the ATX sync be over. If the publish epoch of \<open>ch\<close> is the current epoch or a
  later one, \<open>BuildNIPostChallenge\<close> returns \<open>ch\<close> and leaves the builder, with its
  local database, exactly as it was. If the publish epoch is before the current epoch, the
  identity's post state is set to idle and the prover's \<open>ResetState\<close> is called, whatever
  happens next; and whenever the call then returns a challenge \<open>ch'\<close>, the reset had
  succeeded, the persisted Challenge had been removed (\<open>discard_stale\<close>) before \<open>ch'\<close>
  was built from that state, \<open>ch'\<close> is the Challenge now persisted for the identity, and
  its publish epoch is the target epoch plus one in \<open>uint32\<close> arithmetic. That publish
  epoch is greater than the current epoch provided no increment of the epoch wraps around:
  the target epoch is not below the greater of the current epoch and the last ATX's publish
  epoch, and is below \<open>2^32 - 1\<close>; both hold when that greater epoch is below
  \<open>2^32 - 2\<close>. Without the proviso the publish epoch can be below the current epoch, as
  the scenario with the clock in epoch \<open>2^32 - 1\<close> shows after the theorem.
\<close>

theorem BuildNIPostChallenge_persisted:
  assumes "sync_wait env = Fired"
    and "db_Challenge env b nodeID = Inr ch"
  shows "(current_epoch env \<le> PublishEpoch ch \<longrightarrow>
            BuildNIPostChallenge env b nodeID = (Inr ch, b))
     \<and> (PublishEpoch ch < current_epoch env \<longrightarrow>
            postStates (snd (BuildNIPostChallenge env b nodeID)) nodeID = Some PostStateIdle
          \<and> (\<exists>tr. trace (snd (BuildNIPostChallenge env b nodeID))
                     = trace b @ EvResetState nodeID # tr)
          \<and> (\<forall>ch' b'. BuildNIPostChallenge env b nodeID = (Inr ch', b') \<longrightarrow>
                ResetState_result env nodeID = None
              \<and> challenge_tbl (localDB (discard_stale b nodeID)) nodeID = None
              \<and> build_fresh env (discard_stale b nodeID) nodeID (current_epoch env) = (Inr ch', b')
              \<and> (\<exists>tr. trace b' = trace b @ [EvResetState nodeID, EvRemoveChallenge nodeID] @ tr)
              \<and> postStates b' nodeID = Some PostStateIdle
              \<and> Challenge (localDB b') nodeID = Inr ch'
              \<and> (base_epoch env nodeID < 0xFFFFFFFE \<longrightarrow> current_epoch env < PublishEpoch ch')
              \<and> (\<exists>target. target_epoch env b nodeID (current_epoch env) = Inr target
                    \<and> PublishEpoch ch' = target + 1
                    \<and> (base_epoch env nodeID \<le> target \<and> target < 0xFFFFFFFF \<longrightarrow>
                          current_epoch env < PublishEpoch ch'))))"
proof (intro conjI impI allI)
  assume "current_epoch env \<le> PublishEpoch ch"
  then have "\<not> PublishEpoch ch < current_epoch env"
    by simp
  from existing_challenge_reuse[OF assms(2) this] assms(1)
  show "BuildNIPostChallenge env b nodeID = (Inr ch, b)"
    by (simp add: BuildNIPostChallenge_def)
next
  assume stale: "PublishEpoch ch < current_epoch env"
  note eff = existing_challenge_stale_effects[OF assms(2) stale]
  let ?e = "existing_challenge env b nodeID (current_epoch env)"
  have both: "postStates (snd (BuildNIPostChallenge env b nodeID)) nodeID = Some PostStateIdle
      \<and> (\<exists>tr. trace (snd (BuildNIPostChallenge env b nodeID)) = trace b @ EvResetState nodeID # tr)"
  proof (cases "fst ?e")
    case (Some r)
    then have "BuildNIPostChallenge env b nodeID = (r, snd ?e)"
      using assms(1) by (cases ?e) (simp add: BuildNIPostChallenge_def)
    with eff(1,2) show ?thesis by simp
  next
    case None
    from BuildNIPostChallenge_fresh[OF assms(1) None]
    have eq: "BuildNIPostChallenge env b nodeID
        = build_fresh env (snd ?e) nodeID (current_epoch env)" .
    obtain r b' where f: "build_fresh env (snd ?e) nodeID (current_epoch env) = (r, b')"
      by (cases "build_fresh env (snd ?e) nodeID (current_epoch env)") auto
    from build_fresh_frame[OF f] obtain tr where
      fr: "postStates b' = postStates (snd ?e)" "trace b' = trace (snd ?e) @ tr"
      by blast
    from eff(2) obtain tr0 where "trace (snd ?e) = trace b @ EvResetState nodeID # tr0"
      by blast
    with fr eff(1) eq f show ?thesis by simp
  qed
  from both show "postStates (snd (BuildNIPostChallenge env b nodeID)) nodeID = Some PostStateIdle"
    by (rule conjunct1)
  from both show "\<exists>tr. trace (snd (BuildNIPostChallenge env b nodeID))
      = trace b @ EvResetState nodeID # tr"
    by (rule conjunct2)
next
  fix ch' b'
  assume stale: "PublishEpoch ch < current_epoch env"
    and ret: "BuildNIPostChallenge env b nodeID = (Inr ch', b')"
  note eff = existing_challenge_stale_effects[OF assms(2) stale]
  let ?e = "existing_challenge env b nodeID (current_epoch env)"
  have none: "fst ?e = None"
  proof (cases "fst ?e")
    case None
    then show ?thesis .
  next
    case (Some r)
    then have eq: "BuildNIPostChallenge env b nodeID = (r, snd ?e)"
      using assms(1) by (cases ?e) (simp add: BuildNIPostChallenge_def)
    from Some have "\<exists>err. r = Inl err"
      unfolding existing_challenge_stale[OF assms(2) stale]
      by (simp split: option.splits) (metis fst_conv option.inject)+
    with eq ret show ?thesis by auto
  qed
  from eff(3) none have ok: "ResetState_result env nodeID = None"
    "db_fault env OpRemoveChallenge nodeID = None"
    by simp_all
  from eff(4)[OF none] have snd_e: "snd ?e = discard_stale b nodeID" .
  from BuildNIPostChallenge_fresh[OF assms(1) none] ret snd_e
  have fresh: "build_fresh env (discard_stale b nodeID) nodeID (current_epoch env) = (Inr ch', b')"
    by simp
  from build_fresh_frame[OF fresh] obtain tr where
    fr: "postStates b' = postStates (discard_stale b nodeID)"
      "trace b' = trace (discard_stale b nodeID) @ tr"
    by blast
  from build_fresh_Inr[OF fresh] obtain target where
    t: "target_epoch env (discard_stale b nodeID) nodeID (current_epoch env) = Inr target"
    and pe: "PublishEpoch ch' = target + 1"
    and persisted: "Challenge (localDB b') nodeID = Inr ch'"
    by blast
  show "ResetState_result env nodeID = None" by (rule ok(1))
  show "challenge_tbl (localDB (discard_stale b nodeID)) nodeID = None"
    by (simp add: discard_stale_def RemoveChallenge_def)
  show "build_fresh env (discard_stale b nodeID) nodeID (current_epoch env) = (Inr ch', b')"
    by (rule fresh)
  show "\<exists>tr. trace b' = trace b @ [EvResetState nodeID, EvRemoveChallenge nodeID] @ tr"
    using fr(2) by (simp add: discard_stale_def)
  show "postStates b' nodeID = Some PostStateIdle"
    using fr(1) by (simp add: discard_stale_def)
  show "Challenge (localDB b') nodeID = Inr ch'" by (rule persisted)
  have t': "target_epoch env b nodeID (current_epoch env) = Inr target"
    using t target_epoch_cfg[of "discard_stale b nodeID" b env nodeID "current_epoch env"]
    by (simp add: discard_stale_def)
  have no_wrap: "base_epoch env nodeID \<le> target \<and> target < 0xFFFFFFFF \<longrightarrow>
      current_epoch env < PublishEpoch ch'"
  proof
    assume "base_epoch env nodeID \<le> target \<and> target < 0xFFFFFFFF"
    then have "base_epoch env nodeID \<le> target" and "target < 0xFFFFFFFF"
      by simp_all
    from publish_epoch_no_wrap[OF this base_epoch_ge] pe
    show "current_epoch env < PublishEpoch ch'"
      by simp
  qed
  from t' pe no_wrap
  show "\<exists>target. target_epoch env b nodeID (current_epoch env) = Inr target
          \<and> PublishEpoch ch' = target + 1
          \<and> (base_epoch env nodeID \<le> target \<and> target < 0xFFFFFFFF \<longrightarrow>
                current_epoch env < PublishEpoch ch')"
    by (intro exI[of _ target] conjI)
  assume range: "base_epoch env nodeID < 0xFFFFFFFE"
  from target_epoch_Inr[OF t] pe
  have "PublishEpoch ch' =
      (if poetRoundStart env (discard_stale b nodeID) (base_epoch env nodeID) \<le> now_round_check env
       then base_epoch env nodeID + 1 else base_epoch env nodeID) + 1"
    by simp
  with publish_epoch_later[OF range base_epoch_ge] show "current_epoch env < PublishEpoch ch'"
    by simp
qed

theorem BuildNIPostChallenge_persisted_witness:
  "sync_wait env_ok = Fired
   \<and> db_Challenge env_ok (b_with ch_new) 1 = Inr ch_new
   \<and> current_epoch env_ok \<le> PublishEpoch ch_new
   \<and> BuildNIPostChallenge env_ok (b_with ch_new) 1 = (Inr ch_new, b_with ch_new)
   \<and> db_Challenge env_ok (b_with ch_old) 1 = Inr ch_old
   \<and> PublishEpoch ch_old < current_epoch env_ok
   \<and> BuildNIPostChallenge env_ok (b_with ch_old) 1 = (Inr ch_new, b_rebuilt)
   \<and> postStates b_rebuilt 1 = Some PostStateIdle
   \<and> Challenge (localDB b_rebuilt) 1 = Inr ch_new
   \<and> base_epoch env_ok 1 < 0xFFFFFFFE
   \<and> target_epoch env_ok (b_with ch_old) 1 (current_epoch env_ok) = Inr 7
   \<and> base_epoch env_ok 1 \<le> 7
   \<and> PublishEpoch ch_new = 7 + 1
   \<and> current_epoch env_ok < PublishEpoch ch_new"
proof -
  have sync: "sync_wait env_ok = Fired"
    by (simp add: env_ok_def)
  have c_new: "db_Challenge env_ok (b_with ch_new) 1 = Inr ch_new"
    by (simp add: db_Challenge_def Challenge_def env_ok_def b_with_def)
  have c_old: "db_Challenge env_ok (b_with ch_old) 1 = Inr ch_old"
    by (simp add: db_Challenge_def Challenge_def env_ok_def b_with_def)
  have fresh: "current_epoch env_ok \<le> PublishEpoch ch_new"
    by (simp add: env_ok_def ch_new_def)
  have stale: "PublishEpoch ch_old < current_epoch env_ok"
    by (simp add: env_ok_def ch_old_def)
  have range: "base_epoch env_ok 1 < 0xFFFFFFFE"
    by (simp add: base_epoch_def env_ok_def hdr_last_def)
  note reuse = BuildNIPostChallenge_persisted[OF sync c_new, THEN conjunct1, rule_format, OF fresh]
  note rebuilt = BuildNIPostChallenge_persisted[OF sync c_old, THEN conjunct2, rule_format, OF stale,
      THEN conjunct2, THEN conjunct2, rule_format, OF BuildNIPostChallenge_stale_scenario]
  from rebuilt have idle: "postStates b_rebuilt 1 = Some PostStateIdle"
    by (elim conjE)
  from rebuilt have persisted: "Challenge (localDB b_rebuilt) 1 = Inr ch_new"
    by (elim conjE)
  from rebuilt have "base_epoch env_ok 1 < 0xFFFFFFFE \<longrightarrow> current_epoch env_ok < PublishEpoch ch_new"
    by (elim conjE)
  with range have later: "current_epoch env_ok < PublishEpoch ch_new"
    by (rule rev_mp)
  have tgt: "target_epoch env_ok (b_with ch_old) 1 (current_epoch env_ok) = Inr 7"
    using scenario_target target_epoch_cfg[of "discard_stale (b_with ch_old) 1" "b_with ch_old" env_ok 1
        "current_epoch env_ok"]
    by (simp add: discard_stale_def)
  have base: "base_epoch env_ok 1 \<le> 7"
    by (simp add: base_epoch_def env_ok_def hdr_last_def)
  from rebuilt have "\<exists>target. target_epoch env_ok (b_with ch_old) 1 (current_epoch env_ok) = Inr target
        \<and> PublishEpoch ch_new = target + 1
        \<and> (base_epoch env_ok 1 \<le> target \<and> target < 0xFFFFFFFF \<longrightarrow>
              current_epoch env_ok < PublishEpoch ch_new)"
    by (elim conjE)
  with tgt have pe: "PublishEpoch ch_new = 7 + 1"
    by simp
  from sync c_new fresh reuse c_old stale BuildNIPostChallenge_stale_scenario idle persisted range
    tgt base pe later
  show ?thesis
    by (intro conjI)
qed

text \<open>
  With the clock in epoch \<open>2^32 - 1\<close> and the stale \<open>ch_old\<close> persisted, the target epoch
  is \<open>2^32 - 1\<close> and its successor wraps around: the fresh Challenge that
  \<open>BuildNIPostChallenge\<close> returns and persists has the publish epoch 0, which is before
  the current epoch.
\<close>

theorem BuildNIPostChallenge_epoch_wraps:
  "sync_wait env_wrap = Fired
   \<and> db_Challenge env_wrap (b_with ch_old) 1 = Inr ch_old
   \<and> PublishEpoch ch_old = 5
   \<and> current_epoch env_wrap = 0xFFFFFFFF
   \<and> PublishEpoch ch_old < current_epoch env_wrap
   \<and> BuildNIPostChallenge env_wrap (b_with ch_old) 1 = (Inr ch_wrapped, b_wrapped)
   \<and> Challenge (localDB b_wrapped) 1 = Inr ch_wrapped
   \<and> PublishEpoch ch_wrapped = 0
   \<and> \<not> current_epoch env_wrap \<le> PublishEpoch ch_wrapped"
proof -
  have pre: "sync_wait env_wrap = Fired" "db_Challenge env_wrap (b_with ch_old) 1 = Inr ch_old"
    "PublishEpoch ch_old = 5" "current_epoch env_wrap = 0xFFFFFFFF"
    "PublishEpoch ch_old < current_epoch env_wrap"
    by (simp_all add: db_Challenge_def Challenge_def env_wrap_def env_ok_def b_with_def ch_old_def)
  have kept: "Challenge (localDB b_wrapped) 1 = Inr ch_wrapped"
    by (simp add: Challenge_def b_wrapped_def)
  have pe: "PublishEpoch ch_wrapped = 0"
    by (simp add: ch_wrapped_def)
  have no: "\<not> current_epoch env_wrap \<le> PublishEpoch ch_wrapped"
    by (simp add: env_wrap_def ch_wrapped_def)
  from pre BuildNIPostChallenge_wrap_scenario kept pe no show ?thesis
    by (intro conjI)
qed


theorem BuildNIPostChallenge_target_epoch_witness:
  "sync_wait env_ok = Fired
   \<and> fst (existing_challenge env_ok (b_with ch_old) 1 (current_epoch env_ok)) = None
   \<and> BuildNIPostChallenge env_ok (b_with ch_old) 1 = (Inr ch_new, b_rebuilt)
   \<and> base_epoch env_ok 1 = 7
   \<and> \<not> poetRoundStart env_ok (b_with ch_old) 7 \<le> now_round_check env_ok
   \<and> target_epoch env_ok (b_with ch_old) 1 (current_epoch env_ok) = Inr 7
   \<and> PublishEpoch ch_new = 7 + 1"
proof -
  have sync: "sync_wait env_ok = Fired"
    by (simp add: env_ok_def)
  have none: "fst (existing_challenge env_ok (b_with ch_old) 1 (current_epoch env_ok)) = None"
    by (simp add: scenario_existing)
  have base: "base_epoch env_ok 1 = 7"
    by (simp add: base_epoch_def env_ok_def hdr_last_def)
  have early: "\<not> poetRoundStart env_ok (b_with ch_old) 7 \<le> now_round_check env_ok"
    by (simp add: poetRoundStart_def env_ok_def b_with_def b_idle_def)
  note r = BuildNIPostChallenge_target_epoch[OF sync none BuildNIPostChallenge_stale_scenario]
  from r base early
  have t: "target_epoch env_ok (b_with ch_old) 1 (current_epoch env_ok) = Inr 7"
    by simp
  from r base early have pe: "PublishEpoch ch_new = 7 + 1"
    by simp
  from sync none BuildNIPostChallenge_stale_scenario base early t pe show ?thesis
    by (intro conjI)
qed




section \<open>The search for the positioning ATX\<close>

lemma findFullyValidHighTickAtx_done:
  "positioning_ctx_done env i \<Longrightarrow>
     findFullyValidHighTickAtx env p g R i tr = (Inl (ctx_Err env), R, tr)"
  by (subst findFullyValidHighTickAtx.simps) simp

lemma findFullyValidHighTickAtx_exhausted:
  "\<not> positioning_ctx_done env i \<Longrightarrow>
   GetIDWithMaxHeight (atx_store env) p (\<lambda>a. a \<notin> R) = Inl err \<Longrightarrow>
     findFullyValidHighTickAtx env p g R i tr = (Inl err, R, tr)"
  by (subst findFullyValidHighTickAtx.simps) simp

lemma findFullyValidHighTickAtx_accept:
  "\<not> positioning_ctx_done env i \<Longrightarrow>
   GetIDWithMaxHeight (atx_store env) p (\<lambda>a. a \<notin> R) = Inr cand \<Longrightarrow>
   validator_VerifyChain env cand g = None \<Longrightarrow>
     findFullyValidHighTickAtx env p g R i tr = (Inr cand, R, tr @ [EvVerifyChain cand])"
  by (subst findFullyValidHighTickAtx.simps) simp

lemma findFullyValidHighTickAtx_reject:
  "\<not> positioning_ctx_done env i \<Longrightarrow>
   GetIDWithMaxHeight (atx_store env) p (\<lambda>a. a \<notin> R) = Inr cand \<Longrightarrow>
   validator_VerifyChain env cand g = Some verr \<Longrightarrow>
     findFullyValidHighTickAtx env p g R i tr
       = findFullyValidHighTickAtx env p g (insert cand R) (Suc i) (tr @ [EvVerifyChain cand])"
  by (subst findFullyValidHighTickAtx.simps) simp

lemma findFullyValidHighTickAtx_cases_induct [case_names cancelled exhausted accept reject]:
  assumes "\<And>R i tr. positioning_ctx_done env i \<Longrightarrow> P R i tr (Inl (ctx_Err env), R, tr)"
    and "\<And>R i tr err. \<not> positioning_ctx_done env i \<Longrightarrow>
           GetIDWithMaxHeight (atx_store env) p (\<lambda>a. a \<notin> R) = Inl err \<Longrightarrow>
           P R i tr (Inl err, R, tr)"
    and "\<And>R i tr cand. \<not> positioning_ctx_done env i \<Longrightarrow>
           GetIDWithMaxHeight (atx_store env) p (\<lambda>a. a \<notin> R) = Inr cand \<Longrightarrow>
           validator_VerifyChain env cand g = None \<Longrightarrow>
           P R i tr (Inr cand, R, tr @ [EvVerifyChain cand])"
    and "\<And>R i tr cand verr res. \<not> positioning_ctx_done env i \<Longrightarrow>
           GetIDWithMaxHeight (atx_store env) p (\<lambda>a. a \<notin> R) = Inr cand \<Longrightarrow>
           validator_VerifyChain env cand g = Some verr \<Longrightarrow>
           res = findFullyValidHighTickAtx env p g (insert cand R) (Suc i) (tr @ [EvVerifyChain cand]) \<Longrightarrow>
           P (insert cand R) (Suc i) (tr @ [EvVerifyChain cand]) res \<Longrightarrow>
           P R i tr res"
  shows "P R i tr (findFullyValidHighTickAtx env p g R i tr)"
proof (induction "length (filter (\<lambda>c. fst c \<notin> R) (atx_store env))" arbitrary: R i tr
    rule: less_induct)
  case less
  show ?case
  proof (cases "positioning_ctx_done env i")
    case True
    with assms(1)[OF True] show ?thesis
      by (simp add: findFullyValidHighTickAtx_done)
  next
    case False
    show ?thesis
    proof (cases "GetIDWithMaxHeight (atx_store env) p (\<lambda>a. a \<notin> R)")
      case (Inl err)
      with assms(2)[OF False Inl] False show ?thesis
        by (simp add: findFullyValidHighTickAtx_exhausted)
    next
      case (Inr cand)
      show ?thesis
      proof (cases "validator_VerifyChain env cand g")
        case None
        with assms(3)[OF False Inr None] False Inr show ?thesis
          by (simp add: findFullyValidHighTickAtx_accept)
      next
        case (Some verr)
        from GetIDWithMaxHeight_Inr[OF Inr] obtain h where
          "(cand, h) \<in> set (atx_store env)" "cand \<notin> R"
          by blast
        note smaller = filter_insert_less[OF this]
        from assms(4)[OF False Inr Some refl less.hyps[OF smaller]]
        show ?thesis
          by (simp add: findFullyValidHighTickAtx_reject[OF False Inr Some])
      qed
    qed
  qed
qed

lemma rejected_grows:
  "R \<subseteq> fst (snd (findFullyValidHighTickAtx env p g R i tr))"
  by (rule findFullyValidHighTickAtx_cases_induct
        [where P = "\<lambda>R i tr res. R \<subseteq> fst (snd res)"]) auto

lemma rejected_failed:
  "\<forall>a \<in> fst (snd (findFullyValidHighTickAtx env p g R i tr)) - R.
     validator_VerifyChain env a g \<noteq> None"
  by (rule findFullyValidHighTickAtx_cases_induct
        [where P = "\<lambda>R i tr res. \<forall>a \<in> fst (snd res) - R. validator_VerifyChain env a g \<noteq> None"])
     auto

lemma rejected_highest:
  "\<forall>a \<in> fst (snd (findFullyValidHighTickAtx env p g R i tr)) - R.
     \<exists>h. (a, h) \<in> set (atx_store env)
        \<and> (\<forall>c \<in> set (atx_store env).
              fst c \<notin> fst (snd (findFullyValidHighTickAtx env p g R i tr)) \<longrightarrow> snd c \<le> h)"
proof (rule findFullyValidHighTickAtx_cases_induct
        [where P = "\<lambda>R i tr res. \<forall>a \<in> fst (snd res) - R.
           \<exists>h. (a, h) \<in> set (atx_store env)
              \<and> (\<forall>c \<in> set (atx_store env). fst c \<notin> fst (snd res) \<longrightarrow> snd c \<le> h)"],
      goal_cases)
  case (1 R i tr)
  then show ?case by simp
next
  case (2 R i tr err)
  then show ?case by simp
next
  case (3 R i tr cand)
  then show ?case by simp
next
  case (4 R i tr cand verr res)
  from GetIDWithMaxHeight_Inr[OF 4(2)] obtain h where
    h: "(cand, h) \<in> set (atx_store env)"
      "\<forall>c \<in> set (atx_store env). fst c \<notin> R \<longrightarrow> snd c \<le> h"
    by blast
  have sub: "insert cand R \<subseteq> fst (snd res)"
    unfolding 4(4) by (rule rejected_grows)
  show ?case
  proof
    fix a
    assume a: "a \<in> fst (snd res) - R"
    show "\<exists>h. (a, h) \<in> set (atx_store env)
          \<and> (\<forall>c \<in> set (atx_store env). fst c \<notin> fst (snd res) \<longrightarrow> snd c \<le> h)"
    proof (cases "a = cand")
      case True
      from h sub have "(a, h) \<in> set (atx_store env)
          \<and> (\<forall>c \<in> set (atx_store env). fst c \<notin> fst (snd res) \<longrightarrow> snd c \<le> h)"
        unfolding True by blast
      then show ?thesis ..
    next
      case False
      with a have "a \<in> fst (snd res) - insert cand R" by simp
      with 4(5) show ?thesis by blast
    qed
  qed
qed

lemma accepted_valid:
  "fst (findFullyValidHighTickAtx env p g R i tr) = Inr a \<longrightarrow>
     validator_VerifyChain env a g = None
     \<and> a \<notin> fst (snd (findFullyValidHighTickAtx env p g R i tr))
     \<and> (\<exists>h. (a, h) \<in> set (atx_store env)
           \<and> (\<forall>c \<in> set (atx_store env).
                 fst c \<notin> fst (snd (findFullyValidHighTickAtx env p g R i tr)) \<longrightarrow> snd c \<le> h))"
proof (rule findFullyValidHighTickAtx_cases_induct
        [where P = "\<lambda>R i tr res. fst res = Inr a \<longrightarrow>
           validator_VerifyChain env a g = None \<and> a \<notin> fst (snd res)
           \<and> (\<exists>h. (a, h) \<in> set (atx_store env)
                 \<and> (\<forall>c \<in> set (atx_store env). fst c \<notin> fst (snd res) \<longrightarrow> snd c \<le> h))"],
      goal_cases)
  case (1 R i tr)
  then show ?case by simp
next
  case (2 R i tr err)
  then show ?case by simp
next
  case (3 R i tr cand)
  from GetIDWithMaxHeight_Inr[OF 3(2)] 3(3) show ?case
    by auto
next
  case (4 R i tr cand verr res)
  then show ?case by simp
qed

lemma exhausted_all_rejected:
  "(\<forall>j\<ge>i. \<not> positioning_ctx_done env j) \<longrightarrow>
   fst (findFullyValidHighTickAtx env p g R i tr) = Inl e \<longrightarrow>
     e = ErrNotFound
     \<and> (\<forall>c \<in> set (atx_store env).
           fst c \<in> fst (snd (findFullyValidHighTickAtx env p g R i tr)))"
proof (rule findFullyValidHighTickAtx_cases_induct
        [where P = "\<lambda>R i tr res. (\<forall>j\<ge>i. \<not> positioning_ctx_done env j) \<longrightarrow> fst res = Inl e \<longrightarrow>
           e = ErrNotFound \<and> (\<forall>c \<in> set (atx_store env). fst c \<in> fst (snd res))"],
      goal_cases)
  case (1 R i tr)
  then show ?case by auto
next
  case (2 R i tr err)
  from GetIDWithMaxHeight_Inl[OF 2(2)] show ?case
    by auto
next
  case (3 R i tr cand)
  then show ?case by simp
next
  case (4 R i tr cand verr res)
  then show ?case by simp
qed

lemma verified_once:
  "\<exists>vs. snd (snd (findFullyValidHighTickAtx env p g R i tr)) = tr @ map EvVerifyChain vs
      \<and> distinct vs \<and> set vs \<inter> R = {}
      \<and> set vs = (fst (snd (findFullyValidHighTickAtx env p g R i tr)) - R)
                   \<union> (case fst (findFullyValidHighTickAtx env p g R i tr) of
                        Inr a \<Rightarrow> {a} | Inl e \<Rightarrow> {})"
proof (rule findFullyValidHighTickAtx_cases_induct
        [where P = "\<lambda>R i tr res. \<exists>vs. snd (snd res) = tr @ map EvVerifyChain vs
           \<and> distinct vs \<and> set vs \<inter> R = {}
           \<and> set vs = (fst (snd res) - R) \<union> (case fst res of Inr a \<Rightarrow> {a} | Inl e \<Rightarrow> {})"],
      goal_cases)
  case (1 R i tr)
  then show ?case by simp
next
  case (2 R i tr err)
  then show ?case by simp
next
  case (3 R i tr cand)
  from GetIDWithMaxHeight_Inr[OF 3(2)] have "cand \<notin> R" by simp
  then show ?case
    by (intro exI[of _ "[cand]"]) simp
next
  case (4 R i tr cand verr res)
  from GetIDWithMaxHeight_Inr[OF 4(2)] have nr: "cand \<notin> R" by simp
  have sub: "insert cand R \<subseteq> fst (snd res)"
    unfolding 4(4) by (rule rejected_grows)
  from 4(5) obtain vs where vs:
    "snd (snd res) = (tr @ [EvVerifyChain cand]) @ map EvVerifyChain vs"
    "distinct vs" "set vs \<inter> insert cand R = {}"
    "set vs = (fst (snd res) - insert cand R) \<union> (case fst res of Inr a \<Rightarrow> {a} | Inl e \<Rightarrow> {})"
    by blast
  have "snd (snd res) = tr @ map EvVerifyChain (cand # vs)"
    using vs(1) by simp
  moreover have "distinct (cand # vs)"
    using vs(2,3) by auto
  moreover have "set (cand # vs) \<inter> R = {}"
    using vs(3) nr by auto
  moreover have "set (cand # vs) = (fst (snd res) - R) \<union> (case fst res of Inr a \<Rightarrow> {a} | Inl e \<Rightarrow> {})"
    using vs(4) sub nr by auto
  ultimately show ?case
    by blast
qed

lemma getPositioningAtx_result:
  "fst (getPositioningAtx env b nodeID) =
     (case fst (findFullyValidHighTickAtx env nodeID (GoldenATXID (conf b)) {} 0 (trace b)) of
        Inl err \<Rightarrow> if errors_Is err ErrNotFound then Inr (GoldenATXID (conf b)) else Inl err
      | Inr cand \<Rightarrow> Inr cand)"
  by (cases "findFullyValidHighTickAtx env nodeID (GoldenATXID (conf b)) {} 0 (trace b)")
     (simp add: getPositioningAtx_def split: sum.splits)

lemma select_highest:
  assumes "set db = {(A, hA), (B, hB), (C, hC)}" and "hC < hB" and "hB < (hA :: 64 word)"
  shows "GetIDWithMaxHeight db p (\<lambda>a. a \<notin> {}) = Inr A"
proof (cases "GetIDWithMaxHeight db p (\<lambda>a. a \<notin> {})")
  case (Inl err)
  from GetIDWithMaxHeight_Inl[OF Inl] assms(1) show ?thesis
    by auto
next
  case (Inr x)
  from GetIDWithMaxHeight_Inr[OF Inr] obtain h where
    h: "(x, h) \<in> set db" "\<forall>c \<in> set db. snd c \<le> h"
    by auto
  from h(2) assms(1) have "hA \<le> h" by auto
  with h(1) assms have "x = A" by auto
  with Inr show ?thesis by simp
qed

lemma select_second:
  assumes "set db = {(A, hA), (B, hB), (C, hC)}" and "hC < hB" and "hB < (hA :: 64 word)"
    and "A \<noteq> B"
  shows "GetIDWithMaxHeight db p (\<lambda>a. a \<notin> {A}) = Inr B"
proof (cases "GetIDWithMaxHeight db p (\<lambda>a. a \<notin> {A})")
  case (Inl err)
  from GetIDWithMaxHeight_Inl[OF Inl] assms(1,4) show ?thesis
    by auto
next
  case (Inr x)
  from GetIDWithMaxHeight_Inr[OF Inr] obtain h where
    h: "x \<noteq> A" "(x, h) \<in> set db" "\<forall>c \<in> set db. fst c \<noteq> A \<longrightarrow> snd c \<le> h"
    by auto
  from h(3) assms(1,4) have "hB \<le> h" by auto
  with h(1,2) assms have "x = B" by auto
  with Inr show ?thesis by simp
qed

lemma reject_first_accept_second:
  assumes "set (atx_store env) = {(A, hA), (B, hB), (C, hC)}" and "hC < hB" and "hB < hA"
    and "validator_VerifyChain env A g = Some verr"
    and "validator_VerifyChain env B g = None"
    and "\<forall>i. \<not> positioning_ctx_done env i"
  shows "findFullyValidHighTickAtx env p g {} 0 tr
           = (Inr B, {A}, tr @ [EvVerifyChain A, EvVerifyChain B])"
proof -
  from assms(4,5) have ne: "A \<noteq> B" by auto
  from assms(6) have d: "\<not> positioning_ctx_done env 0" "\<not> positioning_ctx_done env (Suc 0)"
    by simp_all
  have second: "findFullyValidHighTickAtx env p g {A} (Suc 0) (tr @ [EvVerifyChain A])
      = (Inr B, {A}, (tr @ [EvVerifyChain A]) @ [EvVerifyChain B])"
    by (rule findFullyValidHighTickAtx_accept[OF d(2) select_second[OF assms(1-3) ne] assms(5)])
  show ?thesis
    unfolding findFullyValidHighTickAtx_reject[OF d(1) select_highest[OF assms(1-3)] assms(4)] second
    by simp
qed

text \<open>
  C6. Let the context not be done during the search, started with an empty rejection set.
  The ids whose chains are verified, in order, are all different (no id is verified
  twice), and they are the rejected ids followed by the returned id, if one is returned.
  Every rejected id failed its verification and is a known ATX at least as high as every
  known ATX that was never rejected. A returned id passed its verification, is not
  rejected and is at least as high as every known ATX that was not rejected, and
  \<open>getPositioningAtx\<close> returns it. When the search fails, it fails with not-found, every
  known ATX is rejected and \<open>getPositioningAtx\<close> returns the golden ATX id without an error.
  In particular, when the known ATXs are \<open>A\<close>, \<open>B\<close> and \<open>C\<close> with heights
  \<open>hA > hB > hC\<close>, \<open>A\<close> fails its verification and \<open>B\<close> passes, then exactly \<open>A\<close> is
  rejected, \<open>A\<close> and \<open>B\<close> are verified once each, and \<open>B\<close> is returned.
\<close>

theorem getPositioningAtx_selection:
  assumes "\<forall>i. \<not> positioning_ctx_done env i"
  shows "let res = findFullyValidHighTickAtx env nodeID (GoldenATXID (conf b)) {} 0 (trace b);
             rejected = fst (snd res)
         in (\<exists>vs. snd (snd res) = trace b @ map EvVerifyChain vs \<and> distinct vs
                \<and> set vs = rejected \<union> (case fst res of Inr a \<Rightarrow> {a} | Inl e \<Rightarrow> {}))
          \<and> (\<forall>a \<in> rejected.
                validator_VerifyChain env a (GoldenATXID (conf b)) \<noteq> None
              \<and> (\<exists>h. (a, h) \<in> set (atx_store env)
                    \<and> (\<forall>c \<in> set (atx_store env). fst c \<notin> rejected \<longrightarrow> snd c \<le> h)))
          \<and> (\<forall>a. fst res = Inr a \<longrightarrow>
                validator_VerifyChain env a (GoldenATXID (conf b)) = None
              \<and> a \<notin> rejected
              \<and> (\<exists>h. (a, h) \<in> set (atx_store env)
                    \<and> (\<forall>c \<in> set (atx_store env). fst c \<notin> rejected \<longrightarrow> snd c \<le> h))
              \<and> fst (getPositioningAtx env b nodeID) = Inr a)
          \<and> (\<forall>e. fst res = Inl e \<longrightarrow>
                e = ErrNotFound
              \<and> (\<forall>c \<in> set (atx_store env). fst c \<in> rejected)
              \<and> fst (getPositioningAtx env b nodeID) = Inr (GoldenATXID (conf b)))
          \<and> (\<forall>A B C hA hB hC verr.
                set (atx_store env) = {(A, hA), (B, hB), (C, hC)} \<and> hC < hB \<and> hB < hA
                \<and> validator_VerifyChain env A (GoldenATXID (conf b)) = Some verr
                \<and> validator_VerifyChain env B (GoldenATXID (conf b)) = None \<longrightarrow>
                  res = (Inr B, {A}, trace b @ [EvVerifyChain A, EvVerifyChain B])
                \<and> fst (getPositioningAtx env b nodeID) = Inr B)"
proof -
  let ?g = "GoldenATXID (conf b)"
  let ?res = "findFullyValidHighTickAtx env nodeID ?g {} 0 (trace b)"
  have never: "\<forall>j\<ge>0. \<not> positioning_ctx_done env j"
    using assms by simp
  have once: "\<exists>vs. snd (snd ?res) = trace b @ map EvVerifyChain vs \<and> distinct vs
      \<and> set vs = fst (snd ?res) \<union> (case fst ?res of Inr a \<Rightarrow> {a} | Inl e \<Rightarrow> {})"
    using verified_once[of env nodeID ?g "{}" 0 "trace b"] by simp
  have rej: "\<forall>a \<in> fst (snd ?res).
      validator_VerifyChain env a ?g \<noteq> None
      \<and> (\<exists>h. (a, h) \<in> set (atx_store env)
            \<and> (\<forall>c \<in> set (atx_store env). fst c \<notin> fst (snd ?res) \<longrightarrow> snd c \<le> h))"
    using rejected_failed[of env nodeID ?g "{}" 0 "trace b"]
      rejected_highest[of env nodeID ?g "{}" 0 "trace b"] by simp
  have acc: "\<forall>a. fst ?res = Inr a \<longrightarrow>
      validator_VerifyChain env a ?g = None \<and> a \<notin> fst (snd ?res)
      \<and> (\<exists>h. (a, h) \<in> set (atx_store env)
            \<and> (\<forall>c \<in> set (atx_store env). fst c \<notin> fst (snd ?res) \<longrightarrow> snd c \<le> h))
      \<and> fst (getPositioningAtx env b nodeID) = Inr a"
  proof (intro allI impI)
    fix a
    assume a: "fst ?res = Inr a"
    from accepted_valid[of env nodeID ?g "{}" 0 "trace b" a] a
    have "validator_VerifyChain env a ?g = None \<and> a \<notin> fst (snd ?res)
      \<and> (\<exists>h. (a, h) \<in> set (atx_store env)
            \<and> (\<forall>c \<in> set (atx_store env). fst c \<notin> fst (snd ?res) \<longrightarrow> snd c \<le> h))"
      by simp
    moreover have "fst (getPositioningAtx env b nodeID) = Inr a"
      unfolding getPositioningAtx_result a by simp
    ultimately show "validator_VerifyChain env a ?g = None \<and> a \<notin> fst (snd ?res)
      \<and> (\<exists>h. (a, h) \<in> set (atx_store env)
            \<and> (\<forall>c \<in> set (atx_store env). fst c \<notin> fst (snd ?res) \<longrightarrow> snd c \<le> h))
      \<and> fst (getPositioningAtx env b nodeID) = Inr a"
      by simp
  qed
  have exh: "\<forall>e. fst ?res = Inl e \<longrightarrow>
      e = ErrNotFound \<and> (\<forall>c \<in> set (atx_store env). fst c \<in> fst (snd ?res))
      \<and> fst (getPositioningAtx env b nodeID) = Inr ?g"
  proof (intro allI impI)
    fix e
    assume e: "fst ?res = Inl e"
    from exhausted_all_rejected[of 0 env nodeID ?g "{}" "trace b" e] never e
    have nf: "e = ErrNotFound \<and> (\<forall>c \<in> set (atx_store env). fst c \<in> fst (snd ?res))"
      by simp
    then have "fst (getPositioningAtx env b nodeID) = Inr ?g"
      unfolding getPositioningAtx_result e by simp
    with nf show "e = ErrNotFound \<and> (\<forall>c \<in> set (atx_store env). fst c \<in> fst (snd ?res))
      \<and> fst (getPositioningAtx env b nodeID) = Inr ?g"
      by simp
  qed
  have ex: "\<forall>A B C hA hB hC verr.
      set (atx_store env) = {(A, hA), (B, hB), (C, hC)} \<and> hC < hB \<and> hB < hA
      \<and> validator_VerifyChain env A ?g = Some verr
      \<and> validator_VerifyChain env B ?g = None \<longrightarrow>
        ?res = (Inr B, {A}, trace b @ [EvVerifyChain A, EvVerifyChain B])
      \<and> fst (getPositioningAtx env b nodeID) = Inr B"
  proof (intro allI impI, elim conjE)
    fix A B C hA hB hC verr
    assume h: "set (atx_store env) = {(A, hA), (B, hB), (C, hC)}" "hC < hB" "hB < hA"
      "validator_VerifyChain env A ?g = Some verr" "validator_VerifyChain env B ?g = None"
    note r = reject_first_accept_second[OF h assms, of nodeID "trace b"]
    moreover have "fst (getPositioningAtx env b nodeID) = Inr B"
      unfolding getPositioningAtx_result r by simp
    ultimately show "?res = (Inr B, {A}, trace b @ [EvVerifyChain A, EvVerifyChain B])
      \<and> fst (getPositioningAtx env b nodeID) = Inr B"
      by simp
  qed
  from once rej acc exh ex show ?thesis
    unfolding Let_def by (intro conjI)
qed

theorem getPositioningAtx_selection_witness:
  "(\<forall>i. \<not> positioning_ctx_done env_ok i)
   \<and> set (atx_store env_ok) = {(21, 30), (22, 20), (23, 10)}
   \<and> validator_VerifyChain env_ok 21 (GoldenATXID (conf b_idle)) = Some (ErrorsNew ''invalid chain'')
   \<and> validator_VerifyChain env_ok 22 (GoldenATXID (conf b_idle)) = None
   \<and> findFullyValidHighTickAtx env_ok 1 (GoldenATXID (conf b_idle)) {} 0 (trace b_idle)
        = (Inr 22, {21}, trace b_idle @ [EvVerifyChain 21, EvVerifyChain 22])
   \<and> fst (getPositioningAtx env_ok b_idle 1) = Inr 22"
proof -
  have never: "\<forall>i. \<not> positioning_ctx_done env_ok i"
    by (simp add: env_ok_def)
  have store: "set (atx_store env_ok) = {(21, 30), (22, 20), (23, 10)}"
    by (auto simp: env_ok_def)
  have heights: "(10 :: 64 word) < 20" "(20 :: 64 word) < 30"
    by simp_all
  have v: "validator_VerifyChain env_ok 21 (GoldenATXID (conf b_idle)) = Some (ErrorsNew ''invalid chain'')"
    "validator_VerifyChain env_ok 22 (GoldenATXID (conf b_idle)) = None"
    by (simp_all add: env_ok_def)
  from getPositioningAtx_selection[OF never, of 1 b_idle]
  have "\<forall>A B C hA hB hC verr.
      set (atx_store env_ok) = {(A, hA), (B, hB), (C, hC)} \<and> hC < hB \<and> hB < hA
      \<and> validator_VerifyChain env_ok A (GoldenATXID (conf b_idle)) = Some verr
      \<and> validator_VerifyChain env_ok B (GoldenATXID (conf b_idle)) = None \<longrightarrow>
        findFullyValidHighTickAtx env_ok 1 (GoldenATXID (conf b_idle)) {} 0 (trace b_idle)
          = (Inr B, {A}, trace b_idle @ [EvVerifyChain A, EvVerifyChain B])
      \<and> fst (getPositioningAtx env_ok b_idle 1) = Inr B"
    unfolding Let_def by (elim conjE)
  from this[rule_format, of 21 30 22 20 23 10 "ErrorsNew ''invalid chain''"] store heights v
  have r: "findFullyValidHighTickAtx env_ok 1 (GoldenATXID (conf b_idle)) {} 0 (trace b_idle)
          = (Inr 22, {21}, trace b_idle @ [EvVerifyChain 21, EvVerifyChain 22])
      \<and> fst (getPositioningAtx env_ok b_idle 1) = Inr 22"
    by simp
  from never store v r show ?thesis
    by (intro conjI) simp_all
qed

section \<open>Resetting every identity on stop\<close>

lemma reset_signers_Cons:
  "reset_signers env (sig # sigs) resetErr b =
     reset_signers env sigs (join_failure resetErr (reset_failure env sig))
       (b\<lparr>postStates := (postStates b)(sig \<mapsto> PostStateIdle),
          localDB := (if reset_failure env sig = None
                      then snd (RemoveChallenge (localDB b) sig) else localDB b),
          trace := trace b @ reset_events env sig\<rparr>)"
proof (cases "ResetState_result env sig")
  case (Some err)
  then show ?thesis
    by (simp add: nipostBuilder_ResetState_def reset_failure_def reset_events_def join_failure_def)
next
  case None
  show ?thesis
  proof (cases "db_fault env OpRemoveChallenge sig")
    case (Some err)
    with None show ?thesis
      by (simp add: nipostBuilder_ResetState_def db_RemoveChallenge_def reset_failure_def
          reset_events_def join_failure_def)
  next
    case no_fault: None
    from None no_fault show ?thesis
      by (simp add: nipostBuilder_ResetState_def db_RemoveChallenge_def RemoveChallenge_def
          reset_failure_def reset_events_def join_failure_def)
  qed
qed

lemma reset_signers_trace:
  "trace (snd (reset_signers env sigs resetErr b))
     = trace b @ concat (map (reset_events env) sigs)"
proof (induction sigs arbitrary: resetErr b)
  case Nil
  show ?case by simp
next
  case (Cons sig sigs)
  show ?case
    unfolding reset_signers_Cons Cons.IH by simp
qed

lemma reset_signers_postStates:
  "postStates (snd (reset_signers env sigs resetErr b)) s
     = (if s \<in> set sigs then Some PostStateIdle else postStates b s)"
proof (induction sigs arbitrary: resetErr b)
  case Nil
  show ?case by simp
next
  case (Cons sig sigs)
  show ?case
    unfolding reset_signers_Cons Cons.IH by simp
qed

lemma reset_signers_challenges:
  "challenge_tbl (localDB (snd (reset_signers env sigs resetErr b))) s
     = (if s \<in> set sigs \<and> reset_failure env s = None then None
        else challenge_tbl (localDB b) s)"
proof (induction sigs arbitrary: resetErr b)
  case Nil
  show ?case by simp
next
  case (Cons sig sigs)
  show ?case
    unfolding reset_signers_Cons Cons.IH by (auto simp: RemoveChallenge_def)
qed

lemma join_failure_None: "join_failure a f = None \<longleftrightarrow> a = None \<and> f = None"
  by (cases a; cases f) (simp_all add: join_failure_def errors_Join_def)

lemma join_failure_keeps:
  "a = Some x \<Longrightarrow> errors_Is x t \<Longrightarrow> \<exists>y. join_failure a f = Some y \<and> errors_Is y t"
  by (cases f) (simp_all add: join_failure_def errors_Join_def)

lemma join_failure_adds:
  "f = Some x \<Longrightarrow> errors_Is x t \<Longrightarrow> \<exists>y. join_failure a f = Some y \<and> errors_Is y t"
  by (cases a) (simp_all add: join_failure_def errors_Join_def)

lemma reset_signers_error_None:
  "fst (reset_signers env sigs resetErr b) = None
     \<longleftrightarrow> resetErr = None \<and> (\<forall>sig \<in> set sigs. reset_failure env sig = None)"
proof (induction sigs arbitrary: resetErr b)
  case Nil
  show ?case by simp
next
  case (Cons sig sigs)
  show ?case
    unfolding reset_signers_Cons Cons.IH by (auto simp: join_failure_None)
qed

lemma reset_signers_keeps_error:
  "resetErr = Some x \<Longrightarrow> errors_Is x t \<Longrightarrow>
     \<exists>y. fst (reset_signers env sigs resetErr b) = Some y \<and> errors_Is y t"
proof (induction sigs arbitrary: resetErr b x)
  case Nil
  then show ?case by simp
next
  case (Cons sig sigs)
  from join_failure_keeps[OF Cons.prems, of "reset_failure env sig"] obtain y where
    y: "join_failure resetErr (reset_failure env sig) = Some y" "errors_Is y t"
    by blast
  from Cons.IH[OF y] show ?case
    unfolding reset_signers_Cons .
qed

lemma reset_signers_aggregates:
  "sig \<in> set sigs \<Longrightarrow> reset_failure env sig = Some x \<Longrightarrow>
     \<exists>y. fst (reset_signers env sigs resetErr b) = Some y \<and> errors_Is y x"
proof (induction sigs arbitrary: resetErr b)
  case Nil
  then show ?case by simp
next
  case (Cons s sigs)
  show ?case
  proof (cases "s = sig")
    case True
    have "errors_Is x x"
      by (cases x) simp_all
    from join_failure_adds[OF Cons.prems(2) this, of resetErr] obtain y where
      y: "join_failure resetErr (reset_failure env sig) = Some y" "errors_Is y x"
      by blast
    from reset_signers_keeps_error[OF y] show ?thesis
      unfolding True reset_signers_Cons .
  next
    case False
    with Cons.prems have "sig \<in> set sigs" by simp
    from Cons.IH[OF this Cons.prems(2)] show ?thesis
      unfolding reset_signers_Cons .
  qed
qed

lemma reset_signers_Smeshing:
  "Smeshing (snd (reset_signers env sigs resetErr b)) = Smeshing b"
proof (induction sigs arbitrary: resetErr b)
  case Nil
  show ?case by simp
next
  case (Cons sig sigs)
  show ?case
    unfolding reset_signers_Cons Cons.IH by simp
qed

lemma StopSmeshing_started:
  assumes "Smeshing b"
  shows "StopSmeshing env b deleteFiles =
           (if wait_clean env then
              (if deleteFiles then
                 reset_signers env (signers b) None
                   (b\<lparr>Smeshing := False, trace := trace b @ [EvStop, EvWait]\<rparr>)
               else (None, b\<lparr>Smeshing := False, trace := trace b @ [EvStop, EvWait]\<rparr>))
            else
              (Some (Wrapf ''failed to stop smeshing'' (the (eg_Wait env))),
               b\<lparr>Smeshing := False, trace := trace b @ [EvStop, EvWait]\<rparr>))"
  using assms by (simp add: StopSmeshing_def wait_clean_def split: option.splits)

text \<open>
  C7, as the code has it. \<open>StopSmeshing\<close> returns the error \<open>not started\<close> and changes
  nothing when smeshing was not started. Otherwise it cancels the loops' context and waits
  for the loops, and the trace goes on with resets only when the flag is true and the wait
  ended with nil or a cancellation. Then, for every registered identity in turn, the post
  state is set to idle and the prover's \<open>ResetState\<close> is called, and the removal of the
  persisted Challenge is attempted exactly for the identities whose reset succeeded
  (\<open>reset_events\<close>); the Challenge of an identity is gone when neither step failed for it and
  untouched otherwise; the result is nil exactly when no step failed, and every failure
  is found in the returned error by \<open>errors.Is\<close>.
\<close>

theorem StopSmeshing_reset:
  "(\<not> Smeshing b \<longrightarrow> StopSmeshing env b deleteFiles = (Some (ErrorsNew ''not started''), b))
   \<and> (Smeshing b \<longrightarrow>
        \<not> Smeshing (snd (StopSmeshing env b deleteFiles))
      \<and> trace (snd (StopSmeshing env b deleteFiles))
           = trace b @ [EvStop, EvWait]
             @ (if deleteFiles \<and> wait_clean env then concat (map (reset_events env) (signers b))
                else [])
      \<and> (\<not> (deleteFiles \<and> wait_clean env) \<longrightarrow>
            localDB (snd (StopSmeshing env b deleteFiles)) = localDB b
          \<and> postStates (snd (StopSmeshing env b deleteFiles)) = postStates b)
      \<and> (deleteFiles \<and> wait_clean env \<longrightarrow>
            (\<forall>sig \<in> set (signers b).
                postStates (snd (StopSmeshing env b deleteFiles)) sig = Some PostStateIdle
              \<and> EvResetState sig \<in> set (reset_events env sig)
              \<and> (EvRemoveChallenge sig \<in> set (reset_events env sig)
                    \<longleftrightarrow> ResetState_result env sig = None)
              \<and> challenge_tbl (localDB (snd (StopSmeshing env b deleteFiles))) sig
                   = (if reset_failure env sig = None then None else challenge_tbl (localDB b) sig)
              \<and> (\<forall>err. reset_failure env sig = Some err \<longrightarrow>
                    (\<exists>y. fst (StopSmeshing env b deleteFiles) = Some y \<and> errors_Is y err)))
          \<and> (fst (StopSmeshing env b deleteFiles) = None
                \<longleftrightarrow> (\<forall>sig \<in> set (signers b). reset_failure env sig = None))))"
proof (intro conjI impI)
  assume "\<not> Smeshing b"
  then show "StopSmeshing env b deleteFiles = (Some (ErrorsNew ''not started''), b)"
    by (simp add: StopSmeshing_def)
next
  assume s: "Smeshing b"
  show "\<not> Smeshing (snd (StopSmeshing env b deleteFiles))"
  proof -
    show ?thesis
      unfolding StopSmeshing_started[OF s] by (simp add: reset_signers_Smeshing)
  qed
  show "trace (snd (StopSmeshing env b deleteFiles))
           = trace b @ [EvStop, EvWait]
             @ (if deleteFiles \<and> wait_clean env then concat (map (reset_events env) (signers b))
                else [])"
    unfolding StopSmeshing_started[OF s] by (simp add: reset_signers_trace)
next
  assume s: "Smeshing b" and n: "\<not> (deleteFiles \<and> wait_clean env)"
  from n show "localDB (snd (StopSmeshing env b deleteFiles)) = localDB b"
    unfolding StopSmeshing_started[OF s] by auto
  from n show "postStates (snd (StopSmeshing env b deleteFiles)) = postStates b"
    unfolding StopSmeshing_started[OF s] by auto
next
  assume s: "Smeshing b" and d: "deleteFiles \<and> wait_clean env"
  let ?b0 = "b\<lparr>Smeshing := False, trace := trace b @ [EvStop, EvWait]\<rparr>"
  have eq: "StopSmeshing env b deleteFiles = reset_signers env (signers b) None ?b0"
    unfolding StopSmeshing_started[OF s] using d by simp
  show "\<forall>sig \<in> set (signers b).
                postStates (snd (StopSmeshing env b deleteFiles)) sig = Some PostStateIdle
              \<and> EvResetState sig \<in> set (reset_events env sig)
              \<and> (EvRemoveChallenge sig \<in> set (reset_events env sig)
                    \<longleftrightarrow> ResetState_result env sig = None)
              \<and> challenge_tbl (localDB (snd (StopSmeshing env b deleteFiles))) sig
                   = (if reset_failure env sig = None then None else challenge_tbl (localDB b) sig)
              \<and> (\<forall>err. reset_failure env sig = Some err \<longrightarrow>
                    (\<exists>y. fst (StopSmeshing env b deleteFiles) = Some y \<and> errors_Is y err))"
  proof
    fix sig
    assume m: "sig \<in> set (signers b)"
    have p: "postStates (snd (StopSmeshing env b deleteFiles)) sig = Some PostStateIdle"
      unfolding eq reset_signers_postStates using m by simp
    have r: "EvResetState sig \<in> set (reset_events env sig)"
      by (simp add: reset_events_def)
    have rm: "EvRemoveChallenge sig \<in> set (reset_events env sig)
        \<longleftrightarrow> ResetState_result env sig = None"
      by (simp add: reset_events_def)
    have c: "challenge_tbl (localDB (snd (StopSmeshing env b deleteFiles))) sig
        = (if reset_failure env sig = None then None else challenge_tbl (localDB b) sig)"
      unfolding eq reset_signers_challenges using m by simp
    have a: "\<forall>err. reset_failure env sig = Some err \<longrightarrow>
        (\<exists>y. fst (StopSmeshing env b deleteFiles) = Some y \<and> errors_Is y err)"
      unfolding eq using reset_signers_aggregates[OF m] by blast
    from p r rm c a show "postStates (snd (StopSmeshing env b deleteFiles)) sig = Some PostStateIdle
              \<and> EvResetState sig \<in> set (reset_events env sig)
              \<and> (EvRemoveChallenge sig \<in> set (reset_events env sig)
                    \<longleftrightarrow> ResetState_result env sig = None)
              \<and> challenge_tbl (localDB (snd (StopSmeshing env b deleteFiles))) sig
                   = (if reset_failure env sig = None then None else challenge_tbl (localDB b) sig)
              \<and> (\<forall>err. reset_failure env sig = Some err \<longrightarrow>
                    (\<exists>y. fst (StopSmeshing env b deleteFiles) = Some y \<and> errors_Is y err))"
      by (intro conjI)
  qed
  show "fst (StopSmeshing env b deleteFiles) = None
      \<longleftrightarrow> (\<forall>sig \<in> set (signers b). reset_failure env sig = None)"
    unfolding eq reset_signers_error_None by simp
qed

lemma StopSmeshing_two_identities:
  "StopSmeshing env_reset_fails b_two True
     = (Some (Joined [Wrapf ''reset builder state for id'' (ErrorsNew ''post service unavailable'')]),
        b_two\<lparr>localDB := \<lparr>challenge_tbl = [1 \<mapsto> ch_old], initial_post_tbl = Map.empty\<rparr>,
              postStates := [1 \<mapsto> PostStateIdle, 2 \<mapsto> PostStateIdle],
              Smeshing := False,
              trace := [EvStop, EvWait, EvResetState 1, EvResetState 2, EvRemoveChallenge 2]\<rparr>)"
  by (simp add: StopSmeshing_def env_reset_fails_def env_ok_def b_two_def b_idle_def
      nipostBuilder_ResetState_def db_RemoveChallenge_def RemoveChallenge_def errors_Join_def
      fun_upd_twist)

theorem StopSmeshing_skips_removal:
  "Smeshing b_two \<and> signers b_two = [1, 2]
   \<and> eg_Wait env_reset_fails = None
   \<and> ResetState_result env_reset_fails 1 = Some (ErrorsNew ''post service unavailable'')
   \<and> db_fault env_reset_fails OpRemoveChallenge 1 = None
   \<and> trace (snd (StopSmeshing env_reset_fails b_two True))
        = [EvStop, EvWait, EvResetState 1, EvResetState 2, EvRemoveChallenge 2]
   \<and> EvRemoveChallenge 1 \<notin> set (trace (snd (StopSmeshing env_reset_fails b_two True)))
   \<and> Challenge (localDB (snd (StopSmeshing env_reset_fails b_two True))) 1 = Inr ch_old"
proof -
  have pre: "Smeshing b_two" "signers b_two = [1, 2]" "eg_Wait env_reset_fails = None"
    "ResetState_result env_reset_fails 1 = Some (ErrorsNew ''post service unavailable'')"
    "db_fault env_reset_fails OpRemoveChallenge 1 = None"
    by (simp_all add: b_two_def b_idle_def env_reset_fails_def env_ok_def)
  have tr: "trace (snd (StopSmeshing env_reset_fails b_two True))
        = [EvStop, EvWait, EvResetState 1, EvResetState 2, EvRemoveChallenge 2]"
    unfolding StopSmeshing_two_identities by simp
  have no: "EvRemoveChallenge 1 \<notin> set (trace (snd (StopSmeshing env_reset_fails b_two True)))"
    unfolding tr by simp
  have kept: "Challenge (localDB (snd (StopSmeshing env_reset_fails b_two True))) 1 = Inr ch_old"
    unfolding StopSmeshing_two_identities by (simp add: Challenge_def)
  from pre tr no kept show ?thesis
    by (intro conjI)
qed

theorem StopSmeshing_reset_witness:
  "Smeshing b_two \<and> wait_clean env_reset_fails
   \<and> reset_failure env_reset_fails 1
        = Some (Wrapf ''reset builder state for id'' (ErrorsNew ''post service unavailable''))
   \<and> reset_failure env_reset_fails 2 = None
   \<and> trace (snd (StopSmeshing env_reset_fails b_two True))
        = trace b_two @ [EvStop, EvWait, EvResetState 1, EvResetState 2, EvRemoveChallenge 2]
   \<and> postStates (snd (StopSmeshing env_reset_fails b_two True)) 1 = Some PostStateIdle
   \<and> challenge_tbl (localDB (snd (StopSmeshing env_reset_fails b_two True))) 1 = Some ch_old
   \<and> challenge_tbl (localDB (snd (StopSmeshing env_reset_fails b_two True))) 2 = None
   \<and> fst (StopSmeshing env_reset_fails b_two True) \<noteq> None
   \<and> \<not> Smeshing (b_two\<lparr>Smeshing := False\<rparr>)
   \<and> StopSmeshing env_reset_fails (b_two\<lparr>Smeshing := False\<rparr>) True
        = (Some (ErrorsNew ''not started''), b_two\<lparr>Smeshing := False\<rparr>)"
proof -
  have s: "Smeshing b_two" "\<not> Smeshing (b_two\<lparr>Smeshing := False\<rparr>)"
    by (simp_all add: b_two_def b_idle_def)
  have w: "wait_clean env_reset_fails"
    by (simp add: wait_clean_def env_reset_fails_def env_ok_def)
  have f: "reset_failure env_reset_fails 1
        = Some (Wrapf ''reset builder state for id'' (ErrorsNew ''post service unavailable''))"
    "reset_failure env_reset_fails 2 = None"
    by (simp_all add: reset_failure_def env_reset_fails_def env_ok_def)
  have ev: "concat (map (reset_events env_reset_fails) (signers b_two))
      = [EvResetState 1, EvResetState 2, EvRemoveChallenge 2]"
    by (simp add: reset_events_def env_reset_fails_def b_two_def)
  have m: "1 \<in> set (signers b_two)" "2 \<in> set (signers b_two)"
    by (simp_all add: b_two_def)
  have tbl: "challenge_tbl (localDB b_two) 1 = Some ch_old"
    by (simp add: b_two_def)
  note started = StopSmeshing_reset[of b_two env_reset_fails True, THEN conjunct2, rule_format, OF s(1)]
  from started have tr: "trace (snd (StopSmeshing env_reset_fails b_two True))
      = trace b_two @ [EvStop, EvWait, EvResetState 1, EvResetState 2, EvRemoveChallenge 2]"
    using w ev by simp
  from started w have per: "\<forall>sig \<in> set (signers b_two).
        postStates (snd (StopSmeshing env_reset_fails b_two True)) sig = Some PostStateIdle
      \<and> EvResetState sig \<in> set (reset_events env_reset_fails sig)
      \<and> (EvRemoveChallenge sig \<in> set (reset_events env_reset_fails sig)
            \<longleftrightarrow> ResetState_result env_reset_fails sig = None)
      \<and> challenge_tbl (localDB (snd (StopSmeshing env_reset_fails b_two True))) sig
           = (if reset_failure env_reset_fails sig = None then None
              else challenge_tbl (localDB b_two) sig)
      \<and> (\<forall>err. reset_failure env_reset_fails sig = Some err \<longrightarrow>
            (\<exists>y. fst (StopSmeshing env_reset_fails b_two True) = Some y \<and> errors_Is y err))"
    and nil: "fst (StopSmeshing env_reset_fails b_two True) = None
      \<longleftrightarrow> (\<forall>sig \<in> set (signers b_two). reset_failure env_reset_fails sig = None)"
    by simp_all
  from per[rule_format, OF m(1)] f(1) tbl
  have one: "postStates (snd (StopSmeshing env_reset_fails b_two True)) 1 = Some PostStateIdle"
    "challenge_tbl (localDB (snd (StopSmeshing env_reset_fails b_two True))) 1 = Some ch_old"
    by simp_all
  from per[rule_format, OF m(2)] f(2)
  have two: "challenge_tbl (localDB (snd (StopSmeshing env_reset_fails b_two True))) 2 = None"
    by simp
  from nil m(1) f(1) have err: "fst (StopSmeshing env_reset_fails b_two True) \<noteq> None"
    by auto
  note stopped = StopSmeshing_reset[of "b_two\<lparr>Smeshing := False\<rparr>" env_reset_fails True,
      THEN conjunct1, rule_format, OF s(2)]
  from s(1) w f tr one two err s(2) stopped show ?thesis
    by (intro conjI)
qed

end
